theory Spec2Isabelle
  imports Main "HOL-Library.AList"
begin

section \<open>Data model\<close>

text \<open>
  The program \<^verbatim>\<open>spotify_songs_relink.py\<close> is one procedure, \<^verbatim>\<open>main\<close>, that talks to
  a remote music service through the client object \<^verbatim>\<open>sp\<close>, prints to the console, reads
  the console and writes one spreadsheet. The embedding below covers steps 4 to 7 of
  \<^verbatim>\<open>main\<close> (lines 181 to 330): the announcement of the mode, the audit loop, the report
  and the replacement run. Steps 1 to 3 (argument parsing, authentication, choice of the
  source) fix the values collected in \<open>run_context\<close>.

  JSON objects of the service become records that hold the fields the code reads with
  \<^verbatim>\<open>d['key']\<close>; a value the code reads defensively (\<^verbatim>\<open>.get\<close>, \<^verbatim>\<open>in\<close>, a truth test)
  is an \<open>option\<close>. Python strings are \<open>string\<close>.
\<close>

text \<open>The track object inside an item of the source collection (\<^verbatim>\<open>item['track']\<close>).\<close>

record track =
  track_id :: "string option"      \<comment> \<open>\<^verbatim>\<open>item['track'].get('id')\<close>\<close>
  track_name :: string             \<comment> \<open>\<^verbatim>\<open>['name']\<close>\<close>
  track_artists :: "string list"   \<comment> \<open>the \<^verbatim>\<open>['name']\<close> of each element of \<^verbatim>\<open>['artists']\<close>\<close>
  track_album :: string            \<comment> \<open>\<^verbatim>\<open>['album']['name']\<close>\<close>

text \<open>
  An item of a page is \<^verbatim>\<open>None\<close> or an object whose \<^verbatim>\<open>'track'\<close> is \<^verbatim>\<open>None\<close> or a track.
\<close>

type_synonym item = "track option option"

text \<open>
  A track as \<^verbatim>\<open>sp.tracks\<close> and \<^verbatim>\<open>sp.search\<close> return it. \<open>linked_from\<close> is \<open>Some i\<close>
  when the key \<^verbatim>\<open>'linked_from'\<close> is present with an object whose \<^verbatim>\<open>'id'\<close> is \<open>i\<close>.
\<close>

record resolved =
  res_id :: string                 \<comment> \<open>\<^verbatim>\<open>['id']\<close>\<close>
  res_name :: string               \<comment> \<open>\<^verbatim>\<open>['name']\<close>\<close>
  res_album :: string              \<comment> \<open>\<^verbatim>\<open>['album']['name']\<close>\<close>
  is_playable :: bool              \<comment> \<open>\<^verbatim>\<open>['is_playable']\<close>\<close>
  linked_from :: "string option"   \<comment> \<open>\<^verbatim>\<open>['linked_from']['id']\<close>\<close>

text \<open>The dictionary \<^verbatim>\<open>log_entry\<close> of line 225.\<close>

record log_entry =
  artist :: string
  title :: string
  old_album :: string
  old_id :: string
  new_album :: string
  new_id :: string
  reason :: string

text \<open>The values that steps 1 to 3 of \<^verbatim>\<open>main\<close> leave behind.\<close>

record run_context =
  DRY_RUN :: bool
  USER_MARKET :: string
  PLAYLIST_ID :: "string option"
  TEST_MODE_ARTIST :: "string option"
  source_name :: string
  user_display_name :: string
  now_stamp :: string              \<comment> \<open>\<^verbatim>\<open>datetime.now().strftime("%Y%m%d-%H%M")\<close>\<close>
  now_text :: string               \<comment> \<open>\<^verbatim>\<open>datetime.now().strftime("%Y-%m-%d %H:%M:%S")\<close>\<close>

text \<open>
  Exceptions of class \<^verbatim>\<open>Exception\<close> that the embedded code can meet: a failing call of
  the client, \<^verbatim>\<open>original_track['artists'][0]\<close> on an empty list, \<^verbatim>\<open>input\<close> at the end of
  the input, a text that the spreadsheet library refuses in a cell, and a failing
  \<^verbatim>\<open>wb.save\<close>. \<open>str_error\<close> is \<^verbatim>\<open>str(e)\<close>. A keyboard interrupt, which may arrive at
  any moment, is not embedded.
\<close>

datatype error =
  SpotifyException string | IndexError | EOFError | IllegalCharacterError string | OSError string

fun str_error :: "error \<Rightarrow> string" where
  "str_error (SpotifyException m) = m"
| "str_error IndexError = ''list index out of range''"
| "str_error EOFError = ''EOF when reading a line''"
| "str_error (IllegalCharacterError s) = s @ '' cannot be used in worksheets.''"
| "str_error (OSError m) = m"

subsection \<open>The remote service\<close>

text \<open>
  The calls of the client that steps 5 to 7 issue, with their arguments. The last four
  change the user's library.
\<close>

datatype call =
    Playlist_items string nat nat string              \<comment> \<open>playlist, limit, offset, market\<close>
  | Current_user_saved_tracks nat nat                 \<comment> \<open>limit, offset\<close>
  | Tracks "string list" string                       \<comment> \<open>identifiers, market\<close>
  | Search string nat                                 \<comment> \<open>query, limit\<close>
  | Playlist_add_items string "string list"
  | Playlist_remove_all_occurrences_of_items string "string list"
  | Current_user_saved_tracks_add "string list"
  | Current_user_saved_tracks_delete "string list"

fun mutating :: "call \<Rightarrow> bool" where
  "mutating (Playlist_add_items _ _) = True"
| "mutating (Playlist_remove_all_occurrences_of_items _ _) = True"
| "mutating (Current_user_saved_tracks_add _) = True"
| "mutating (Current_user_saved_tracks_delete _) = True"
| "mutating _ = False"

text \<open>
  The service is a black box with a state of type \<open>'s\<close>. A reading call answers from the
  state, with the \<^verbatim>\<open>['items']\<close> (or \<^verbatim>\<open>['tracks']\<close>, \<^verbatim>\<open>['tracks']['items']\<close>) of the
  response or with an exception; a changing call returns the exception it raised, if
  any, and the next state.
\<close>

record 's spotify =
  playlist_items :: "'s \<Rightarrow> string \<Rightarrow> nat \<Rightarrow> nat \<Rightarrow> string \<Rightarrow> error + item list"
  current_user_saved_tracks :: "'s \<Rightarrow> nat \<Rightarrow> nat \<Rightarrow> error + item list"
  tracks :: "'s \<Rightarrow> string list \<Rightarrow> string \<Rightarrow> error + resolved option list"
  search :: "'s \<Rightarrow> string \<Rightarrow> nat \<Rightarrow> error + resolved list"
  playlist_add_items :: "'s \<Rightarrow> string \<Rightarrow> string list \<Rightarrow> error option \<times> 's"
  playlist_remove_all_occurrences_of_items :: "'s \<Rightarrow> string \<Rightarrow> string list \<Rightarrow> error option \<times> 's"
  current_user_saved_tracks_add :: "'s \<Rightarrow> string list \<Rightarrow> error option \<times> 's"
  current_user_saved_tracks_delete :: "'s \<Rightarrow> string list \<Rightarrow> error option \<times> 's"

text \<open>A spreadsheet: the sheets in order, each with its title and its rows of cells.\<close>

datatype cell = Str string | Num nat

type_synonym sheet = "string \<times> cell list list"
type_synonym workbook = "sheet list"

text \<open>
  Everything outside the program: the state of the service, the calls issued so far,
  the states in which the service was left by the changing calls issued so far, one
  after the other, the lines printed, the lines still to be read from the console, the
  files saved, and whether \<^verbatim>\<open>wb.save\<close> of a file name fails.
\<close>

record 's world =
  service :: 's
  calls :: "call list"
  states :: "'s list"
  console :: "string list"
  stdin :: "string list"
  files :: "(string \<times> workbook) list"
  save_error :: "string \<Rightarrow> error option"

section \<open>Helpers\<close>

abbreviation NL :: string where "NL \<equiv> [CHR 0x0A]"
abbreviation QUOTE :: string where "QUOTE \<equiv> [CHR 0x27]"

text \<open>
  Two functions that the program uses are not part of its source: \<^verbatim>\<open>str.lower\<close> of
  Python, which folds every cased letter of Unicode, and the check that the spreadsheet
  library (openpyxl) makes of a text before it puts it into a cell, which raises an
  exception for some texts and returns the text to store for the others. The embedding
  takes both as parameters; every theorem holds whatever they are.
\<close>

record library =
  lower :: "string \<Rightarrow> string"                   \<comment> \<open>\<^verbatim>\<open>s.lower()\<close>\<close>
  check_string :: "string \<Rightarrow> error + string"   \<comment> \<open>the check of a text cell\<close>

text \<open>\<^verbatim>\<open>str(n)\<close> of a natural number.\<close>

definition digit :: "nat \<Rightarrow> char" where
  "digit d = ''0123456789'' ! d"

function str_nat :: "nat \<Rightarrow> string" where
  "str_nat n = (if n < 10 then [digit n] else str_nat (n div 10) @ [digit (n mod 10)])"
  by pat_completeness auto
termination
  by (relation "measure id") auto

declare str_nat.simps [simp del]

text \<open>The truth value of an optional string: \<^verbatim>\<open>None\<close> and \<^verbatim>\<open>''\<close> are false.\<close>

fun truthy :: "string option \<Rightarrow> bool" where
  "truthy None = False"
| "truthy (Some s) = (s \<noteq> [])"

definition print :: "string \<Rightarrow> 's world \<Rightarrow> 's world" where
  "print s w = w\<lparr>console := console w @ [s]\<rparr>"

text \<open>\<^verbatim>\<open>input(prompt)\<close>: the prompt is written, a line is read.\<close>

definition input :: "string \<Rightarrow> 's world \<Rightarrow> 's world \<times> (error + string)" where
  "input prompt w =
     (case stdin w of
        [] \<Rightarrow> (print prompt w, Inl EOFError)
      | l # ls \<Rightarrow> ((print prompt w)\<lparr>stdin := ls\<rparr>, Inr l))"

text \<open>A reading call: it is recorded, the state of the service stays.\<close>

definition reading :: "call \<Rightarrow> (error + 'a) \<Rightarrow> 's world \<Rightarrow> 's world \<times> (error + 'a)" where
  "reading c answer w = (w\<lparr>calls := calls w @ [c]\<rparr>, answer)"

text \<open>A changing call: it is recorded, the service moves to its next state.\<close>

definition changing :: "call \<Rightarrow> (error option \<times> 's) \<Rightarrow> 's world \<Rightarrow> 's world \<times> error option" where
  "changing c answer w =
     (w\<lparr>calls := calls w @ [c], service := snd answer, states := states w @ [snd answer]\<rparr>, fst answer)"

section \<open>Step 5: the audit\<close>

text \<open>
  Lines 202 to 205: one page of the source, 100 items of a playlist or 50 liked songs.
\<close>

definition fetch_call :: "run_context \<Rightarrow> nat \<Rightarrow> call" where
  "fetch_call ctx offset =
     (if truthy (PLAYLIST_ID ctx)
      then Playlist_items (the (PLAYLIST_ID ctx)) 100 offset (USER_MARKET ctx)
      else Current_user_saved_tracks 50 offset)"

definition page :: "'s spotify \<Rightarrow> run_context \<Rightarrow> 's \<Rightarrow> nat \<Rightarrow> error + item list" where
  "page sp ctx s offset =
     (if truthy (PLAYLIST_ID ctx)
      then playlist_items sp s (the (PLAYLIST_ID ctx)) 100 offset (USER_MARKET ctx)
      else current_user_saved_tracks sp s 50 offset)"

definition fetch :: "'s spotify \<Rightarrow> run_context \<Rightarrow> nat \<Rightarrow> 's world \<Rightarrow> 's world \<times> (error + item list)" where
  "fetch sp ctx offset w = reading (fetch_call ctx offset) (page sp ctx (service w) offset) w"

text \<open>
  Line 209: the dictionary from identifier to track of a page, as an association list
  in the order of first insertion; a later item with the same identifier replaces the
  value and keeps the place, as a Python dictionary does.
\<close>

fun original_track_map :: "item list \<Rightarrow> (string \<times> track) list \<Rightarrow> (string \<times> track) list" where
  "original_track_map [] m = m"
| "original_track_map (Some (Some t) # items) m =
     (if truthy (track_id t)
      then original_track_map items (AList.update (the (track_id t)) t m)
      else original_track_map items m)"
| "original_track_map (_ # items) m = original_track_map items m"

text \<open>Lines 236 to 241: the first playable candidate with the same title is taken.\<close>

fun search_loop :: "library \<Rightarrow> resolved list \<Rightarrow> log_entry \<Rightarrow> 's world \<Rightarrow> log_entry \<times> 's world" where
  "search_loop lib [] log_entry w = (log_entry, w)"
| "search_loop lib (potential_track # rest) log_entry w =
     (if is_playable potential_track \<and> lower lib (res_name potential_track) = lower lib (title log_entry)
      then (log_entry\<lparr>new_id := res_id potential_track, new_album := res_album potential_track\<rparr>,
            print ''  > Found replacement for unplayable track.'' w)
      else search_loop lib rest log_entry w)"

text \<open>
  Lines 220 to 245, the body of the loop over the resolved tracks of a page, for a
  resolved track that is not \<^verbatim>\<open>None\<close>. The result is the record to append, or \<open>None\<close>
  after \<^verbatim>\<open>continue\<close>, or the exception raised.
\<close>

definition audit_track ::
  "library \<Rightarrow> 's spotify \<Rightarrow> (string \<times> track) list \<Rightarrow> resolved \<Rightarrow> 's world \<Rightarrow> 's world \<times> (error + log_entry option)" where
  "audit_track lib sp track_map resolved_track w =
     (let is_relinked = (linked_from resolved_track \<noteq> None);
          is_unplayable = (\<not> is_playable resolved_track);
          id_in_library = (if is_relinked then the (linked_from resolved_track) else res_id resolved_track)
      in case map_of track_map id_in_library of
           None \<Rightarrow> (w, Inr None)
         | Some original_track \<Rightarrow>
            (case track_artists original_track of
               [] \<Rightarrow> (w, Inl IndexError)
             | first_artist # _ \<Rightarrow>
                (let log_entry = \<lparr>artist = first_artist, title = track_name original_track,
                                  old_album = track_album original_track, old_id = id_in_library,
                                  new_album = [], new_id = [], reason = []\<rparr>;
                     found = NL @ ''[FOUND '';
                     named = '' TRACK]: '' @ QUOTE @ title log_entry @ QUOTE @ '' (by '' @ QUOTE
                             @ artist log_entry @ QUOTE @ '')''
                 in if is_relinked then
                      (print (found @ ''RE-LINKED'' @ named) w,
                       Inr (Some (log_entry\<lparr>reason := ''Re-linked'', new_id := res_id resolved_track,
                                           new_album := res_album resolved_track\<rparr>)))
                    else if is_unplayable then
                      (let query = title log_entry @ '' artist:'' @ artist log_entry
                       in case reading (Search query 5) (search sp (service w) query 5)
                                 (print (found @ ''UNPLAYABLE'' @ named) w) of
                            (w1, Inl e) \<Rightarrow> (w1, Inl e)
                          | (w1, Inr search_results) \<Rightarrow>
                             (case search_loop lib search_results (log_entry\<lparr>reason := ''Unplayable''\<rparr>) w1 of
                                (log_entry', w2) \<Rightarrow>
                                  ((if new_id log_entry' = [] then print ''  > No replacement found.'' w2 else w2),
                                   Inr (Some log_entry'))))
                    else (w, Inr (Some (log_entry\<lparr>reason := ''OK''\<rparr>))))))"

text \<open>Lines 218 to 245: the loop over \<^verbatim>\<open>full_tracks_details['tracks']\<close>.\<close>

fun audit_tracks ::
  "library \<Rightarrow> 's spotify \<Rightarrow> (string \<times> track) list \<Rightarrow> resolved option list \<Rightarrow> log_entry list \<Rightarrow> 's world
     \<Rightarrow> 's world \<times> (error + log_entry list)" where
  "audit_tracks lib sp track_map [] log w = (w, Inr log)"
| "audit_tracks lib sp track_map (None # rest) log w = audit_tracks lib sp track_map rest log w"
| "audit_tracks lib sp track_map (Some resolved_track # rest) log w =
     (case audit_track lib sp track_map resolved_track w of
        (w1, Inl e) \<Rightarrow> (w1, Inl e)
      | (w1, Inr None) \<Rightarrow> audit_tracks lib sp track_map rest log w1
      | (w1, Inr (Some log_entry)) \<Rightarrow> audit_tracks lib sp track_map rest (log @ [log_entry]) w1)"

text \<open>
  Lines 201 to 248, one pass through the body of \<^verbatim>\<open>while True\<close> at an offset: the loop
  is left by \<^verbatim>\<open>break\<close>, or by an exception, or goes on with a new offset and list.
\<close>

datatype 's pass = Break "'s world" | Raise error "'s world" | Continue nat "log_entry list" "'s world"

definition audit_page ::
  "library \<Rightarrow> 's spotify \<Rightarrow> run_context \<Rightarrow> nat \<Rightarrow> log_entry list \<Rightarrow> 's world \<Rightarrow> 's pass" where
  "audit_page lib sp ctx offset log w =
     (case fetch sp ctx offset w of
        (w1, Inl e) \<Rightarrow> Raise e w1
      | (w1, Inr items) \<Rightarrow>
         if items = [] then Break w1
         else
           (let track_map = original_track_map items [];
                track_ids = map fst track_map
            in if track_ids = [] then Continue (offset + length items) log w1
               else
                 (case reading (Tracks track_ids (USER_MARKET ctx))
                         (tracks sp (service w1) track_ids (USER_MARKET ctx)) w1 of
                    (w2, Inl e) \<Rightarrow> Raise e w2
                  | (w2, Inr full_tracks_details) \<Rightarrow>
                     (case audit_tracks lib sp track_map full_tracks_details log w2 of
                        (w3, Inl e) \<Rightarrow> Raise e w3
                      | (w3, Inr log') \<Rightarrow>
                          Continue (offset + length items) log'
                            (print (''Processed '' @ str_nat (offset + length items) @ '' songs...'') w3)))))"

text \<open>
  Lines 200 to 248: the loop. It need not end (a service may answer every offset with
  a page that is not empty), so not returning is the value \<open>None\<close>.
\<close>

partial_function (option) audit_loop ::
  "library \<Rightarrow> 's spotify \<Rightarrow> run_context \<Rightarrow> nat \<Rightarrow> log_entry list \<Rightarrow> 's world
     \<Rightarrow> ('s world \<times> (error + log_entry list)) option" where
  "audit_loop lib sp ctx offset log w =
     (case audit_page lib sp ctx offset log w of
        Break w1 \<Rightarrow> Some (w1, Inr log)
      | Raise e w1 \<Rightarrow> Some (w1, Inl e)
      | Continue offset' log' w1 \<Rightarrow> audit_loop lib sp ctx offset' log' w1)"

declare audit_loop.simps [code]

section \<open>Step 4: the mode\<close>

text \<open>
  Lines 182 to 194. The result says whether the run goes on: a live run asks first, and
  any answer but \<^verbatim>\<open>y\<close> (in either case) ends \<^verbatim>\<open>main\<close> by \<^verbatim>\<open>return\<close>.
\<close>

definition announce_mode :: "library \<Rightarrow> run_context \<Rightarrow> 's world \<Rightarrow> 's world \<times> (error + bool)" where
  "announce_mode lib ctx w =
     (let w1 = print (''Using market: '' @ QUOTE @ USER_MARKET ctx @ QUOTE)
                 (print (NL @ ''Auditing Source: '' @ source_name ctx) w)
      in if DRY_RUN ctx then (print ''Mode: DRY RUN (no changes will be made)'' w1, Inr True)
         else
           (let w2 = print ''Mode: LIVE RUN (changes WILL be made)'' w1;
                w3 = (if truthy (TEST_MODE_ARTIST ctx)
                      then print (''--- ARTIST TEST MODE IS ACTIVE. ONLY MODIFYING TRACKS BY '' @ QUOTE
                                  @ the (TEST_MODE_ARTIST ctx) @ QUOTE @ ''. ---'') w2
                      else w2)
            in case input ''Are you sure you want to continue? (y/n): '' w3 of
                 (w4, Inl e) \<Rightarrow> (w4, Inl e)
               | (w4, Inr confirm) \<Rightarrow>
                   if lower lib confirm \<noteq> ''y'' then (print ''Aborting.'' w4, Inr False)
                   else (w4, Inr True)))"

section \<open>Step 6: the summary and the report\<close>

text \<open>Lines 251 to 254.\<close>

definition unplayable_count :: "log_entry list \<Rightarrow> nat" where
  "unplayable_count log = length (filter (\<lambda>t. reason t = ''Unplayable'') log)"

definition relinked_count :: "log_entry list \<Rightarrow> nat" where
  "relinked_count log = length (filter (\<lambda>t. reason t = ''Re-linked'') log)"

definition clean_count :: "log_entry list \<Rightarrow> nat" where
  "clean_count log = length (filter (\<lambda>t. reason t = ''OK'') log)"

definition replacements_found :: "log_entry list \<Rightarrow> nat" where
  "replacements_found log = length (filter (\<lambda>t. new_id t \<noteq> []) log)"

text \<open>Lines 255 to 261.\<close>

definition print_summary :: "run_context \<Rightarrow> log_entry list \<Rightarrow> 's world \<Rightarrow> 's world" where
  "print_summary ctx log w =
     (let rule = replicate 40 (CHR ''='')
      in print rule
          (print (''Total Replacements Found: '' @ str_nat (replacements_found log))
            (print (''  - Re-linked:  '' @ str_nat (relinked_count log))
              (print (''  - Unplayable: '' @ str_nat (unplayable_count log))
                (print (''  - Clean:      '' @ str_nat (clean_count log))
                  (print (''Total Tracks Audited: '' @ str_nat (length log))
                    (print (NL @ rule @ NL @ ''           Scan Complete - '' @ source_name ctx @ NL @ rule)
                       w)))))))"

text \<open>
  Lines 265 to 287: the rows handed to \<^verbatim>\<open>append\<close>, in the order of the calls. Fonts,
  alignments and column widths are left out.
\<close>

definition headers :: "cell list" where
  "headers = [Str ''Reason'', Str ''Artist'', Str ''Title'', Str ''Old Album Name'',
              Str ''Old Track Id'', Str ''New Album Name'', Str ''New Track Id'']"

definition audit_row :: "log_entry \<Rightarrow> cell list" where
  "audit_row track = [Str (reason track), Str (artist track), Str (title track), Str (old_album track),
                      Str (old_id track), Str (new_album track), Str (new_id track)]"

definition summary_rows :: "run_context \<Rightarrow> log_entry list \<Rightarrow> cell list list" where
  "summary_rows ctx log =
     [[Str ''Run Parameters''],
      [Str ''Timestamp'', Str (now_text ctx)],
      [Str ''Authenticated User'', Str (user_display_name ctx)],
      [Str ''Source Audited'', Str (source_name ctx)],
      [Str ''Run Mode'', Str (if DRY_RUN ctx then ''Dry Run (No Changes Made)'' else ''Live Run (Changes Made)'')],
      [Str ''Market'', Str (USER_MARKET ctx)],
      [Str ''Test Mode Artist'',
       Str (if truthy (TEST_MODE_ARTIST ctx) then the (TEST_MODE_ARTIST ctx) else ''N/A (Full Run)'')],
      [],
      [Str ''Scan Statistics''],
      [Str ''Category'', Str ''Count''],
      [Str ''Total Tracks Audited'', Num (length log)],
      [Str ''Clean Tracks'', Num (clean_count log)],
      [Str ''Unplayable Tracks'', Num (unplayable_count log)],
      [Str ''Re-linked Tracks'', Num (relinked_count log)],
      [Str ''Replacements Found'', Num (replacements_found log)]]"

definition audit_rows :: "log_entry list \<Rightarrow> cell list list" where
  "audit_rows log = headers # map audit_row log"

text \<open>
  \<^verbatim>\<open>ws.append(row)\<close>: the cells are made from left to right; a text goes through the
  check of the library, which raises or gives the text that the cell holds; a number is
  held as it is. The first exception ends the call.
\<close>

fun append_cells :: "library \<Rightarrow> cell list \<Rightarrow> error + cell list" where
  "append_cells lib [] = Inr []"
| "append_cells lib (Num n # cells) =
     (case append_cells lib cells of Inl e \<Rightarrow> Inl e | Inr row \<Rightarrow> Inr (Num n # row))"
| "append_cells lib (Str s # cells) =
     (case check_string lib s of
        Inl e \<Rightarrow> Inl e
      | Inr held \<Rightarrow> (case append_cells lib cells of Inl e \<Rightarrow> Inl e | Inr row \<Rightarrow> Inr (Str held # row)))"

text \<open>The \<^verbatim>\<open>append\<close> calls of a sheet, one row after the other.\<close>

fun append_rows :: "library \<Rightarrow> cell list list \<Rightarrow> error + cell list list" where
  "append_rows lib [] = Inr []"
| "append_rows lib (row # rows) =
     (case append_cells lib row of
        Inl e \<Rightarrow> Inl e
      | Inr held \<Rightarrow> (case append_rows lib rows of Inl e \<Rightarrow> Inl e | Inr sheet \<Rightarrow> Inr (held # sheet)))"

text \<open>
  Lines 262 to 289: the file is written only if there is a record. The summary sheet is
  filled first, then the audit sheet, then the workbook is saved; an exception in any of
  these leaves \<^verbatim>\<open>main\<close> before a file is written.
\<close>

definition write_report ::
  "library \<Rightarrow> run_context \<Rightarrow> log_entry list \<Rightarrow> 's world \<Rightarrow> 's world \<times> error option" where
  "write_report lib ctx log w =
     (if log \<noteq> [] then
        (let filename = ''spotify_song_audit_'' @ now_stamp ctx @ ''.xlsx''
         in case append_rows lib (summary_rows ctx log) of
              Inl e \<Rightarrow> (w, Some e)
            | Inr ws_summary \<Rightarrow>
               (case append_rows lib (audit_rows log) of
                  Inl e \<Rightarrow> (w, Some e)
                | Inr ws_audit \<Rightarrow>
                   (case save_error w filename of
                      Some e \<Rightarrow> (w, Some e)
                    | None \<Rightarrow>
                        (print (NL @ ''[LOG CREATED]: A complete multi-sheet audit has been saved to '' @ QUOTE
                                @ filename @ QUOTE)
                           (w\<lparr>files := files w @
                                [(filename, [(''Run Summary'', ws_summary), (''Audit Report'', ws_audit)])]\<rparr>),
                         None))))
      else (w, None))"

section \<open>Step 7: the live run\<close>

text \<open>
  Lines 302 to 314, the body of \<^verbatim>\<open>try\<close> for one record: the counter, the call that
  adds, the call that removes. The result is the exception that left the body, if any.
\<close>

definition replace_track ::
  "'s spotify \<Rightarrow> run_context \<Rightarrow> nat \<Rightarrow> nat \<Rightarrow> log_entry \<Rightarrow> 's world \<Rightarrow> 's world \<times> error option" where
  "replace_track sp ctx i total_to_process pair w =
     (let progress_counter = ''('' @ str_nat i @ '' of '' @ str_nat total_to_process @ '')'';
          blank = replicate (length progress_counter) (CHR '' '');
          named = QUOTE @ title pair @ QUOTE
      in if truthy (PLAYLIST_ID ctx) then
           (let playlist = the (PLAYLIST_ID ctx)
            in case changing (Playlist_add_items playlist [new_id pair])
                      (playlist_add_items sp (service w) playlist [new_id pair]) w of
                 (w1, Some e) \<Rightarrow> (w1, Some e)
               | (w1, None) \<Rightarrow>
                  (let w2 = print (''  '' @ progress_counter @ '' + Added new version: '' @ named) w1
                   in case changing (Playlist_remove_all_occurrences_of_items playlist [old_id pair])
                             (playlist_remove_all_occurrences_of_items sp (service w2) playlist [old_id pair]) w2 of
                        (w3, Some e) \<Rightarrow> (w3, Some e)
                      | (w3, None) \<Rightarrow>
                          (print (''  '' @ blank @ '' - Removed old version: '' @ named) w3, None)))
         else
           (case changing (Current_user_saved_tracks_add [new_id pair])
                   (current_user_saved_tracks_add sp (service w) [new_id pair]) w of
              (w1, Some e) \<Rightarrow> (w1, Some e)
            | (w1, None) \<Rightarrow>
               (let w2 = print (''  '' @ progress_counter @ '' + Liked new version: '' @ named) w1
                in case changing (Current_user_saved_tracks_delete [old_id pair])
                          (current_user_saved_tracks_delete sp (service w2) [old_id pair]) w2 of
                     (w3, Some e) \<Rightarrow> (w3, Some e)
                   | (w3, None) \<Rightarrow>
                       (print (''  '' @ blank @ '' - Unliked old version: '' @ named) w3, None))))"

text \<open>Line 301: the record is passed over when a test artist is set and is not its artist.\<close>

definition skipped :: "library \<Rightarrow> run_context \<Rightarrow> log_entry \<Rightarrow> bool" where
  "skipped lib ctx pair =
     (truthy (TEST_MODE_ARTIST ctx) \<and> lower lib (artist pair) \<noteq> lower lib (the (TEST_MODE_ARTIST ctx)))"

text \<open>
  Lines 300 to 316: the loop over \<^verbatim>\<open>enumerate(tracks_to_process, 1)\<close>, from the index
  \<open>i\<close> on, with the count of the records done so far.
\<close>

fun replacement_loop ::
  "library \<Rightarrow> 's spotify \<Rightarrow> run_context \<Rightarrow> nat \<Rightarrow> nat \<Rightarrow> log_entry list \<Rightarrow> nat \<Rightarrow> 's world \<Rightarrow> nat \<times> 's world" where
  "replacement_loop lib sp ctx i total_to_process [] processed_count w = (processed_count, w)"
| "replacement_loop lib sp ctx i total_to_process (pair # rest) processed_count w =
     (if skipped lib ctx pair then replacement_loop lib sp ctx (Suc i) total_to_process rest processed_count w
      else
        (case replace_track sp ctx i total_to_process pair w of
           (w1, None) \<Rightarrow> replacement_loop lib sp ctx (Suc i) total_to_process rest (Suc processed_count) w1
         | (w1, Some e) \<Rightarrow>
             replacement_loop lib sp ctx (Suc i) total_to_process rest processed_count
               (print (''An error occurred while replacing track '' @ old_id pair @ '': '' @ str_error e) w1)))"

text \<open>Line 293.\<close>

definition tracks_to_process :: "log_entry list \<Rightarrow> log_entry list" where
  "tracks_to_process log = filter (\<lambda>t. new_id t \<noteq> []) log"

text \<open>Lines 292 to 323.\<close>

definition live_run :: "library \<Rightarrow> 's spotify \<Rightarrow> run_context \<Rightarrow> log_entry list \<Rightarrow> 's world \<Rightarrow> 's world" where
  "live_run lib sp ctx log w =
     (if \<not> DRY_RUN ctx then
        (if tracks_to_process log = [] then print (NL @ ''No tracks with found replacements to process.'') w
         else
           (case replacement_loop lib sp ctx 1 (length (tracks_to_process log)) (tracks_to_process log) 0
                   (print (NL @ ''Starting replacement process...'') w) of
              (processed_count, w1) \<Rightarrow>
                (let w2 = print (NL @ ''Cleanup complete!'') w1
                 in if truthy (TEST_MODE_ARTIST ctx)
                    then print (''Processed '' @ str_nat processed_count @ '' track(s) for artist '' @ QUOTE
                                @ the (TEST_MODE_ARTIST ctx) @ QUOTE @ ''.'') w2
                    else w2)))
      else
        (let w1 = print (NL @ ''Dry run complete. No changes were made.'') w
         in if replacements_found log > 0
            then print ''To apply fixes for the found replacements, use --dry-run False.'' w1
            else w1))"

section \<open>The run\<close>

text \<open>Lines 328 to 330: the handler of \<^verbatim>\<open>main\<close> prints the exception and exits with 1.\<close>

definition unexpected :: "error \<Rightarrow> 's world \<Rightarrow> 's world \<times> nat" where
  "unexpected e w = (print (NL @ NL @ ''An unexpected error occurred: '' @ str_error e) w, 1)"

text \<open>
  Lines 250 to 323, steps 6 and 7 for the records of the audit, with the world at the
  end and the exit status.
\<close>

definition report_and_live_run ::
  "library \<Rightarrow> 's spotify \<Rightarrow> run_context \<Rightarrow> log_entry list \<Rightarrow> 's world \<Rightarrow> 's world \<times> nat" where
  "report_and_live_run lib sp ctx tracks_to_audit_log w =
     (case write_report lib ctx tracks_to_audit_log (print_summary ctx tracks_to_audit_log w) of
        (w2, Some e) \<Rightarrow> unexpected e w2
      | (w2, None) \<Rightarrow> (live_run lib sp ctx tracks_to_audit_log w2, 0))"

text \<open>
  Steps 4 to 7 of \<^verbatim>\<open>main\<close>, with the world at the end and the exit status; \<open>None\<close>
  when the audit loop does not end.
\<close>

definition main ::
  "library \<Rightarrow> 's spotify \<Rightarrow> run_context \<Rightarrow> 's world \<Rightarrow> ('s world \<times> nat) option" where
  "main lib sp ctx w =
     (case announce_mode lib ctx w of
        (w0, Inl e) \<Rightarrow> Some (unexpected e w0)
      | (w0, Inr False) \<Rightarrow> Some (w0, 0)
      | (w0, Inr True) \<Rightarrow>
         (case audit_loop lib sp ctx 0 [] (print (NL @ ''Fetching songs from '' @ source_name ctx @ ''...'') w0) of
            None \<Rightarrow> None
          | Some (w1, Inl e) \<Rightarrow> Some (unexpected e w1)
          | Some (w1, Inr tracks_to_audit_log) \<Rightarrow>
              Some (report_and_live_run lib sp ctx tracks_to_audit_log w1)))"

section \<open>Notions used in the statements\<close>

text \<open>The world in which a pass through the audit loop ends.\<close>

fun pass_world :: "'s pass \<Rightarrow> 's world" where
  "pass_world (Break w) = w"
| "pass_world (Raise e w) = w"
| "pass_world (Continue offset log w) = w"

text \<open>
  From \<open>w\<close> to \<open>w'\<close> the service has kept its state, and the calls issued since \<open>w\<close>
  are all reading calls.
\<close>

definition reads_only :: "'s world \<Rightarrow> 's world \<Rightarrow> bool" where
  "reads_only w w' \<longleftrightarrow>
     service w' = service w \<and> take (length (calls w)) (calls w') = calls w \<and>
     filter mutating (drop (length (calls w)) (calls w')) = []"

text \<open>
  The two calls of lines 305 and 307 (playlist) or 310 and 312 (liked songs) for a
  record, and what the service does with them in a state.
\<close>

definition add_call :: "run_context \<Rightarrow> log_entry \<Rightarrow> call" where
  "add_call ctx pair =
     (if truthy (PLAYLIST_ID ctx) then Playlist_add_items (the (PLAYLIST_ID ctx)) [new_id pair]
      else Current_user_saved_tracks_add [new_id pair])"

definition remove_call :: "run_context \<Rightarrow> log_entry \<Rightarrow> call" where
  "remove_call ctx pair =
     (if truthy (PLAYLIST_ID ctx)
      then Playlist_remove_all_occurrences_of_items (the (PLAYLIST_ID ctx)) [old_id pair]
      else Current_user_saved_tracks_delete [old_id pair])"

definition add_op :: "'s spotify \<Rightarrow> run_context \<Rightarrow> 's \<Rightarrow> log_entry \<Rightarrow> error option \<times> 's" where
  "add_op sp ctx s pair =
     (if truthy (PLAYLIST_ID ctx) then playlist_add_items sp s (the (PLAYLIST_ID ctx)) [new_id pair]
      else current_user_saved_tracks_add sp s [new_id pair])"

definition remove_op :: "'s spotify \<Rightarrow> run_context \<Rightarrow> 's \<Rightarrow> log_entry \<Rightarrow> error option \<times> 's" where
  "remove_op sp ctx s pair =
     (if truthy (PLAYLIST_ID ctx)
      then playlist_remove_all_occurrences_of_items sp s (the (PLAYLIST_ID ctx)) [old_id pair]
      else current_user_saved_tracks_delete sp s [old_id pair])"

fun adding :: "call \<Rightarrow> bool" where
  "adding (Playlist_add_items _ _) = True"
| "adding (Current_user_saved_tracks_add _) = True"
| "adding _ = False"

section \<open>An example service\<close>

text \<open>
  A small service for trying the program: the liked songs hold a track that was
  re-linked (and is unplayable too), an unplayable track with four search results and
  a playable one; the playlist \<^verbatim>\<open>P\<close> holds three items without a usable track. Liking
  the track \<^verbatim>\<open>B\<close> fails. The state of the service is the list of the liked identifiers.
\<close>

text \<open>
  A library for the example: on texts of ASCII letters \<open>ascii_lower\<close> is \<^verbatim>\<open>str.lower\<close>,
  and \<open>plain_check\<close> does what the check of openpyxl does, which refuses the control
  characters other than tab, line feed and carriage return and keeps 32767 characters.
\<close>

definition lower_char :: "char \<Rightarrow> char" where
  "lower_char c =
     (case map_of (zip ''ABCDEFGHIJKLMNOPQRSTUVWXYZ'' ''abcdefghijklmnopqrstuvwxyz'') c of
        Some d \<Rightarrow> d
      | None \<Rightarrow> c)"

definition ascii_lower :: "string \<Rightarrow> string" where
  "ascii_lower s = map lower_char s"

definition illegal :: "char \<Rightarrow> bool" where
  "illegal c = (of_char c < (32::nat) \<and> of_char c \<notin> {9::nat, 10, 13})"

definition plain_check :: "string \<Rightarrow> error + string" where
  "plain_check s =
     (if list_ex illegal (take 32767 s) then Inl (IllegalCharacterError (take 32767 s))
      else Inr (take 32767 s))"

definition demo_lib :: library where
  "demo_lib = \<lparr>lower = ascii_lower, check_string = plain_check\<rparr>"

definition song_A :: track where
  "song_A = \<lparr>track_id = Some ''A'', track_name = ''Song'', track_artists = [''Abba''], track_album = ''Old''\<rparr>"

definition song_C :: track where
  "song_C = \<lparr>track_id = Some ''C'', track_name = ''Tune'', track_artists = [''Beck'', ''Cher''],
             track_album = ''Lost''\<rparr>"

definition song_F :: track where
  "song_F = \<lparr>track_id = Some ''F'', track_name = ''Fine'', track_artists = [''Abba''], track_album = ''Good''\<rparr>"

definition song_local :: track where
  "song_local = \<lparr>track_id = None, track_name = ''Local'', track_artists = [], track_album = []\<rparr>"

definition resolved_B :: resolved where
  "resolved_B = \<lparr>res_id = ''B'', res_name = ''Song'', res_album = ''New'', is_playable = False,
                 linked_from = Some ''A''\<rparr>"

definition resolved_C :: resolved where
  "resolved_C = \<lparr>res_id = ''C'', res_name = ''Tune'', res_album = ''Lost'', is_playable = False,
                 linked_from = None\<rparr>"

definition resolved_F :: resolved where
  "resolved_F = \<lparr>res_id = ''F'', res_name = ''Fine'', res_album = ''Good'', is_playable = True,
                 linked_from = None\<rparr>"

definition candidates :: "resolved list" where
  "candidates =
     [\<lparr>res_id = ''D0'', res_name = ''TUNE'', res_album = ''Gone'', is_playable = False, linked_from = None\<rparr>,
      \<lparr>res_id = ''D1'', res_name = ''Tune (Live)'', res_album = ''Live'', is_playable = True, linked_from = None\<rparr>,
      \<lparr>res_id = ''D'', res_name = ''TUNE'', res_album = ''Found'', is_playable = True, linked_from = None\<rparr>,
      \<lparr>res_id = ''E'', res_name = ''Tune'', res_album = ''Other'', is_playable = True, linked_from = None\<rparr>]"

definition liked_page :: "item list" where
  "liked_page = [Some (Some song_A), None, Some (Some song_C), Some (Some song_F)]"

definition unusable_page :: "item list" where
  "unusable_page = [None, Some None, Some (Some song_local)]"

definition demo_sp :: "string list spotify" where
  "demo_sp = \<lparr>
     playlist_items = (\<lambda>s p limit offset market.
        if p \<noteq> ''P'' then Inl (SpotifyException ''not found'')
        else if offset = 0 then Inr unusable_page else Inr []),
     current_user_saved_tracks = (\<lambda>s limit offset. if offset = 0 then Inr liked_page else Inr []),
     tracks = (\<lambda>s ids market. Inr [Some resolved_B, None, Some resolved_C, Some resolved_F]),
     search = (\<lambda>s q limit. Inr candidates),
     playlist_add_items = (\<lambda>s p ids. (None, s)),
     playlist_remove_all_occurrences_of_items = (\<lambda>s p ids. (None, s)),
     current_user_saved_tracks_add = (\<lambda>s ids.
        if ids = [''B''] then (Some (SpotifyException ''boom''), s) else (None, ids @ s)),
     current_user_saved_tracks_delete = (\<lambda>s ids. (None, filter (\<lambda>i. i \<notin> set ids) s))\<rparr>"

text \<open>The same service with no liked song at all.\<close>

definition empty_sp :: "string list spotify" where
  "empty_sp = demo_sp\<lparr>current_user_saved_tracks := (\<lambda>s limit offset. Inr [])\<rparr>"

definition dry_ctx :: run_context where
  "dry_ctx = \<lparr>DRY_RUN = True, USER_MARKET = ''BE'', PLAYLIST_ID = None, TEST_MODE_ARTIST = None,
              source_name = ''Liked Songs'', user_display_name = ''me'',
              now_stamp = ''20240101-1200'', now_text = ''2024-01-01 12:00:00''\<rparr>"

definition live_ctx :: run_context where
  "live_ctx = dry_ctx\<lparr>DRY_RUN := False\<rparr>"

definition beck_ctx :: run_context where
  "beck_ctx = dry_ctx\<lparr>DRY_RUN := False, TEST_MODE_ARTIST := Some ''BECK''\<rparr>"

definition playlist_ctx :: run_context where
  "playlist_ctx = dry_ctx\<lparr>PLAYLIST_ID := Some ''P'', source_name := ''Playlist P''\<rparr>"

definition demo_world :: "string list world" where
  "demo_world = \<lparr>service = [''A'', ''C'', ''F''], calls = [], states = [], console = [], stdin = [''Y''], files = [],
                 save_error = (\<lambda>f. None)\<rparr>"

text \<open>The three records that the audit of the liked songs produces.\<close>

definition entry_A :: log_entry where
  "entry_A = \<lparr>artist = ''Abba'', title = ''Song'', old_album = ''Old'', old_id = ''A'',
              new_album = ''New'', new_id = ''B'', reason = ''Re-linked''\<rparr>"

definition entry_C :: log_entry where
  "entry_C = \<lparr>artist = ''Beck'', title = ''Tune'', old_album = ''Lost'', old_id = ''C'',
              new_album = ''Found'', new_id = ''D'', reason = ''Unplayable''\<rparr>"

definition entry_F :: log_entry where
  "entry_F = \<lparr>artist = ''Abba'', title = ''Fine'', old_album = ''Good'', old_id = ''F'',
              new_album = [], new_id = [], reason = ''OK''\<rparr>"

text \<open>A record that the spreadsheet library refuses: its title holds a control character.\<close>

definition entry_bad :: log_entry where
  "entry_bad = \<lparr>artist = ''Abba'', title = ''Bad'' @ [CHR 0x01] @ ''Song'', old_album = ''Old'',
                 old_id = ''G'', new_album = [], new_id = [], reason = ''OK''\<rparr>"

lemmas demo_defs =
  demo_lib_def ascii_lower_def lower_char_def plain_check_def illegal_def
  demo_sp_def empty_sp_def dry_ctx_def live_ctx_def beck_ctx_def playlist_ctx_def demo_world_def
  song_A_def song_C_def song_F_def song_local_def resolved_B_def resolved_C_def resolved_F_def
  candidates_def liked_page_def unusable_page_def entry_A_def entry_C_def entry_F_def

lemmas step_defs =
  main_def announce_mode_def print_def input_def audit_page_def fetch_def reading_def changing_def
  page_def fetch_call_def audit_track_def str_nat.simps digit_def
  write_report_def print_summary_def live_run_def unexpected_def replacements_found_def
  unplayable_count_def relinked_count_def clean_count_def summary_rows_def audit_rows_def
  headers_def audit_row_def report_and_live_run_def tracks_to_process_def replace_track_def skipped_def
  add_call_def remove_call_def add_op_def remove_op_def Let_def

section \<open>The audit only reads\<close>

lemma reads_only_iff:
  "reads_only w w' \<longleftrightarrow> service w' = service w \<and> (\<exists>cs. calls w' = calls w @ cs \<and> filter mutating cs = [])"
proof
  assume r: "reads_only w w'"
  then have "calls w' = calls w @ drop (length (calls w)) (calls w')"
    by (metis append_take_drop_id reads_only_def)
  with r show "service w' = service w \<and> (\<exists>cs. calls w' = calls w @ cs \<and> filter mutating cs = [])"
    unfolding reads_only_def by blast
next
  assume "service w' = service w \<and> (\<exists>cs. calls w' = calls w @ cs \<and> filter mutating cs = [])"
  then show "reads_only w w'"
    by (auto simp: reads_only_def)
qed

lemma reads_only_refl: "reads_only w w"
  by (simp add: reads_only_def)

lemma reads_only_trans: "reads_only w w1 \<Longrightarrow> reads_only w1 w2 \<Longrightarrow> reads_only w w2"
  by (auto simp: reads_only_iff)

lemma reads_only_print: "reads_only w (print s w)"
  by (simp add: reads_only_def print_def)

lemma reads_only_reading:
  "\<not> mutating c \<Longrightarrow> reading c answer w = (w', r) \<Longrightarrow> reads_only w w'"
  by (auto simp: reads_only_def reading_def)

lemma search_loop_find:
  "search_loop lib cands e w =
     (case find (\<lambda>p. is_playable p \<and> lower lib (res_name p) = lower lib (title e)) cands of
        None \<Rightarrow> (e, w)
      | Some p \<Rightarrow> (e\<lparr>new_id := res_id p, new_album := res_album p\<rparr>,
                  print ''  > Found replacement for unplayable track.'' w))"
  by (induction cands) auto

lemma print_fields:
  "calls (print s w) = calls w" "service (print s w) = service w" "files (print s w) = files w"
  "stdin (print s w) = stdin w" "save_error (print s w) = save_error w"
  "states (print s w) = states w"
  "console (print s w) = console w @ [s]"
  by (simp_all add: print_def)

lemma search_loop_world:
  "snd (search_loop lib cands e w) = w \<or>
   snd (search_loop lib cands e w) = print ''  > Found replacement for unplayable track.'' w"
  by (simp add: search_loop_find split: option.splits)

lemma search_loop_fields:
  "calls (snd (search_loop lib cands e w)) = calls w"
  "service (snd (search_loop lib cands e w)) = service w"
  "files (snd (search_loop lib cands e w)) = files w"
  using search_loop_world [of lib cands e w] by (auto simp: print_fields)

lemma audit_track_calls:
  assumes "audit_track lib sp m rt w = (w', r)"
  shows "service w' = service w \<and> files w' = files w \<and>
         (calls w' = calls w \<or> (\<exists>q. calls w' = calls w @ [Search q 5]))"
proof -
  have s: "\<And>cands e w1 e1 w2. search_loop lib cands e w1 = (e1, w2) \<Longrightarrow>
             calls w2 = calls w1 \<and> service w2 = service w1 \<and> files w2 = files w1"
    using search_loop_fields by (metis snd_conv)
  show ?thesis
    using assms unfolding audit_track_def Let_def reading_def
    by (auto simp: print_fields split: option.splits list.splits if_splits prod.splits sum.splits dest!: s)
qed

lemma reads_only_audit_track:
  assumes "audit_track lib sp m rt w = (w', r)"
  shows "reads_only w w'"
  using audit_track_calls [OF assms] by (auto simp: reads_only_iff)

lemma reads_only_audit_tracks:
  "audit_tracks lib sp m rts log w = (w', r) \<Longrightarrow> reads_only w w'"
proof (induction lib sp m rts log w rule: audit_tracks.induct)
  case (1 lib sp m log w)
  then show ?case by (simp add: reads_only_refl)
next
  case (2 lib sp m rest log w)
  then show ?case by simp
next
  case (3 lib sp m rt rest log w)
  obtain w1 r1 where a: "audit_track lib sp m rt w = (w1, r1)"
    by (cases "audit_track lib sp m rt w")
  have w1: "reads_only w w1"
    using a by (rule reads_only_audit_track)
  show ?case
  proof (cases r1)
    case (Inl e)
    with a "3.prems" w1 show ?thesis by simp
  next
    case (Inr eo)
    show ?thesis
    proof (cases eo)
      case None
      with a Inr "3.prems" have "audit_tracks lib sp m rest log w1 = (w', r)" by simp
      with "3.IH"(1) a Inr None have "reads_only w1 w'" by simp
      with w1 show ?thesis by (rule reads_only_trans)
    next
      case (Some e)
      with a Inr "3.prems" have "audit_tracks lib sp m rest (log @ [e]) w1 = (w', r)" by simp
      with "3.IH"(2) a Inr Some have "reads_only w1 w'" by simp
      with w1 show ?thesis by (rule reads_only_trans)
    qed
  qed
qed


lemma mutating_fetch_call: "\<not> mutating (fetch_call ctx offset)"
  by (simp add: fetch_call_def)

lemma reads_only_audit_page: "reads_only w (pass_world (audit_page lib sp ctx offset log w))"
proof -
  obtain w1 r1 where f: "fetch sp ctx offset w = (w1, r1)"
    by (cases "fetch sp ctx offset w")
  then have w1: "reads_only w w1"
    unfolding fetch_def by (rule reads_only_reading [OF mutating_fetch_call])
  show ?thesis
  proof (cases r1)
    case (Inl e)
    with f w1 show ?thesis by (simp add: audit_page_def)
  next
    case (Inr items)
    define ids where "ids = map fst (original_track_map items [])"
    obtain w2 r2 where t: "reading (Tracks ids (USER_MARKET ctx))
        (tracks sp (service w1) ids (USER_MARKET ctx)) w1 = (w2, r2)"
      by (cases "reading (Tracks ids (USER_MARKET ctx)) (tracks sp (service w1) ids (USER_MARKET ctx)) w1")
    then have w2: "reads_only w w2"
      using reads_only_reading [of "Tracks ids (USER_MARKET ctx)"] w1 reads_only_trans by fastforce
    show ?thesis
    proof (cases r2)
      case (Inl e)
      with f Inr t w1 w2 show ?thesis
        by (simp add: audit_page_def Let_def ids_def)
    next
      case full: (Inr full_tracks_details)
      obtain w3 r3 where a: "audit_tracks lib sp (original_track_map items []) full_tracks_details log w2 = (w3, r3)"
        by (cases "audit_tracks lib sp (original_track_map items []) full_tracks_details log w2")
      then have "reads_only w2 w3"
        by (rule reads_only_audit_tracks)
      with w2 have w3: "reads_only w w3"
        by (rule reads_only_trans)
      then have "reads_only w (print s w3)" for s
        using reads_only_print reads_only_trans by blast
      with f Inr t full a w1 w3 show ?thesis
        by (cases r3) (simp_all add: audit_page_def Let_def ids_def)
    qed
  qed
qed

lemma reads_only_audit_loop_fst:
  fixes w :: "'s world"
  assumes "audit_loop lib sp ctx offset log w = Some y"
  shows "reads_only w (fst y)"
proof (rule audit_loop.raw_induct [where P = "\<lambda>lib sp ctx offset log w y. reads_only w (fst y)", OF _ assms])
  fix loop :: "library \<Rightarrow> 's spotify \<Rightarrow> run_context \<Rightarrow> nat \<Rightarrow> log_entry list \<Rightarrow> 's world
                \<Rightarrow> ('s world \<times> (error + log_entry list)) option"
    and lib sp ctx offset log w y
  assume IH: "\<And>lib sp ctx offset log w y. loop lib sp ctx offset log w = Some y \<Longrightarrow> reads_only w (fst y)"
  assume body: "(case audit_page lib sp ctx offset log w of
                   Break w1 \<Rightarrow> Some (w1, Inr log)
                 | Raise e w1 \<Rightarrow> Some (w1, Inl e)
                 | Continue offset' log' w1 \<Rightarrow> loop lib sp ctx offset' log' w1) = Some y"
  have p: "reads_only w (pass_world (audit_page lib sp ctx offset log w))"
    by (rule reads_only_audit_page)
  show "reads_only w (fst y)"
  proof (cases "audit_page lib sp ctx offset log w")
    case (Break w1)
    with body p show ?thesis by auto
  next
    case (Raise e w1)
    with body p show ?thesis by auto
  next
    case (Continue offset' log' w1)
    with body have "loop lib sp ctx offset' log' w1 = Some y" by simp
    then have "reads_only w1 (fst y)" by (rule IH)
    with p Continue show ?thesis by (auto intro: reads_only_trans)
  qed
qed

lemma reads_only_audit_loop:
  "audit_loop lib sp ctx offset log w = Some (w', r) \<Longrightarrow> reads_only w w'"
  using reads_only_audit_loop_fst by fastforce

lemma reads_only_announce_mode: "announce_mode lib ctx w = (w', r) \<Longrightarrow> DRY_RUN ctx \<Longrightarrow> reads_only w w'"
  by (auto simp: announce_mode_def Let_def reads_only_def print_fields)

lemma reads_only_print_summary: "reads_only w (print_summary ctx log w)"
  by (simp add: print_summary_def Let_def reads_only_def print_fields)

lemma reads_only_write_report: "write_report lib ctx log w = (w', r) \<Longrightarrow> reads_only w w'"
  by (auto simp: write_report_def Let_def reads_only_def print_fields
      split: if_splits option.splits sum.splits)

lemma reads_only_dry_run: "DRY_RUN ctx \<Longrightarrow> reads_only w (live_run lib sp ctx log w)"
  by (simp add: live_run_def Let_def reads_only_def print_fields)

lemma reads_only_unexpected: "reads_only w (fst (unexpected e w))"
  by (simp add: unexpected_def reads_only_print)

section \<open>Dry runs\<close>

text \<open>
  Claim C1. When dry-run mode is enabled, a run of the program that ends leaves the
  state of the service as it was, and every call it issued to the service is a reading
  call: no item is added to or removed from a playlist or the liked songs. This holds
  for every service, hence however many substitutes the audit finds. (In a run whose
  audit loop never ends, each pass through the loop reads only as well: that is
  \<open>reads_only_audit_page\<close>.)
\<close>

theorem dry_run_issues_no_mutating_call:
  assumes dry: "DRY_RUN ctx" and run: "main lib sp ctx w = Some (w', status)"
  shows "service w' = service w \<and> (\<exists>cs. calls w' = calls w @ cs \<and> filter mutating cs = [])"
proof -
  obtain w0 r0 where a: "announce_mode lib ctx w = (w0, r0)"
    by (cases "announce_mode lib ctx w")
  with dry have w0: "reads_only w w0"
    by (simp add: reads_only_announce_mode)
  have "reads_only w w'"
  proof (cases r0)
    case (Inl e)
    with a run have "w' = fst (unexpected e w0)" by (auto simp: main_def)
    with w0 show ?thesis using reads_only_unexpected reads_only_trans by blast
  next
    case (Inr go)
    show ?thesis
    proof (cases go)
      case False
      with a Inr run w0 show ?thesis by (auto simp: main_def)
    next
      case True
      define wf where "wf = print (NL @ ''Fetching songs from '' @ source_name ctx @ ''...'') w0"
      have wf: "reads_only w wf"
        unfolding wf_def using w0 reads_only_print reads_only_trans by blast
      from a Inr True run obtain w1 r1 where l: "audit_loop lib sp ctx 0 [] wf = Some (w1, r1)"
        by (auto simp: main_def wf_def split: option.splits)
      then have "reads_only wf w1" by (rule reads_only_audit_loop)
      with wf have w1: "reads_only w w1" by (rule reads_only_trans)
      show ?thesis
      proof (cases r1)
        case (Inl e)
        with a Inr True run l have "w' = fst (unexpected e w1)"
          by (auto simp: main_def wf_def report_and_live_run_def)
        with w1 show ?thesis using reads_only_unexpected reads_only_trans by blast
      next
        case log: (Inr log)
        obtain w2 r2 where r: "write_report lib ctx log (print_summary ctx log w1) = (w2, r2)"
          by (cases "write_report lib ctx log (print_summary ctx log w1)")
        then have "reads_only (print_summary ctx log w1) w2" by (rule reads_only_write_report)
        with w1 have w2: "reads_only w w2"
          using reads_only_print_summary reads_only_trans by blast
        show ?thesis
        proof (cases r2)
          case None
          with a Inr True run l log r have "w' = live_run lib sp ctx log w2"
            by (auto simp: main_def wf_def report_and_live_run_def)
          with w2 dry show ?thesis using reads_only_dry_run reads_only_trans by blast
        next
          case (Some e)
          with a Inr True run l log r have "w' = fst (unexpected e w2)"
            by (auto simp: main_def wf_def report_and_live_run_def)
          with w2 show ?thesis using reads_only_unexpected reads_only_trans by blast
        qed
      qed
    qed
  qed
  then show ?thesis by (simp add: reads_only_iff)
qed

theorem dry_run_issues_no_mutating_call_witness:
  "DRY_RUN dry_ctx \<and>
   (\<exists>w' status. main demo_lib demo_sp dry_ctx demo_world = Some (w', status) \<and>
      service w' = service demo_world \<and>
      (\<exists>cs. calls w' = calls demo_world @ cs \<and> filter mutating cs = []))"
proof -
  have d: "DRY_RUN dry_ctx"
    by (simp add: dry_ctx_def)
  have "main demo_lib demo_sp dry_ctx demo_world \<noteq> None"
    by (simp add: demo_defs step_defs audit_loop.simps)
  then obtain w' status where r: "main demo_lib demo_sp dry_ctx demo_world = Some (w', status)"
    by auto
  from dry_run_issues_no_mutating_call [OF d r] d r show ?thesis
    by blast
qed

section \<open>The records of the audit\<close>

lemma search_loop_entry:
  "reason (fst (search_loop lib cands e w)) = reason e"
  "title (fst (search_loop lib cands e w)) = title e"
  "artist (fst (search_loop lib cands e w)) = artist e"
  "old_id (fst (search_loop lib cands e w)) = old_id e"
  "old_album (fst (search_loop lib cands e w)) = old_album e"
  by (simp_all add: search_loop_find split: option.splits)

lemma search_loop_first:
  "(\<exists>i<length cands.
      (is_playable (cands ! i) \<and> lower lib (res_name (cands ! i)) = lower lib (title e)) \<and>
      (\<forall>j<i. \<not> (is_playable (cands ! j) \<and> lower lib (res_name (cands ! j)) = lower lib (title e))) \<and>
      fst (search_loop lib cands e w) = e\<lparr>new_id := res_id (cands ! i), new_album := res_album (cands ! i)\<rparr>)
   \<or> ((\<forall>p\<in>set cands. \<not> (is_playable p \<and> lower lib (res_name p) = lower lib (title e))) \<and>
       fst (search_loop lib cands e w) = e)"
proof (cases "find (\<lambda>p. is_playable p \<and> lower lib (res_name p) = lower lib (title e)) cands")
  case None
  then have "fst (search_loop lib cands e w) = e"
    by (simp add: search_loop_find)
  moreover from None have "\<forall>p\<in>set cands. \<not> (is_playable p \<and> lower lib (res_name p) = lower lib (title e))"
    by (simp add: find_None_iff)
  ultimately show ?thesis
    by blast
next
  case (Some p)
  then obtain i where "i < length cands"
    "is_playable (cands ! i) \<and> lower lib (res_name (cands ! i)) = lower lib (title e)"
    "p = cands ! i"
    "\<forall>j<i. \<not> (is_playable (cands ! j) \<and> lower lib (res_name (cands ! j)) = lower lib (title e))"
    unfolding find_Some_iff by blast
  with Some show ?thesis
    by (intro disjI1 exI [of _ i]) (simp add: search_loop_find)
qed

lemma map_of_original_track_map:
  "map_of (original_track_map items m) k = Some t \<Longrightarrow>
     (Some (Some t) \<in> set items \<and> track_id t = Some k) \<or> map_of m k = Some t"
proof (induction items m rule: original_track_map.induct)
  case (2 t' items m)
  then show ?case
    by (cases "track_id t'") (auto simp: update_conv' split: if_splits)
qed auto

lemma audit_track_reason:
  assumes "audit_track lib sp track_map resolved_track w = (w', Inr (Some log_entry))"
  shows "reason log_entry =
           (if linked_from resolved_track \<noteq> None then ''Re-linked''
            else if \<not> is_playable resolved_track then ''Unplayable''
            else ''OK'')"
proof -
  have s: "\<And>cands e w1 e1 w2. search_loop lib cands e w1 = (e1, w2) \<Longrightarrow> reason e1 = reason e"
    using search_loop_entry(1) by (metis fst_conv)
  show ?thesis
    using assms unfolding audit_track_def Let_def reading_def
    by (auto split: option.splits list.splits if_splits prod.splits sum.splits dest!: s)
qed

text \<open>
  Claim C2. Every resolved track that gets a record is classified by the first of three
  tests that applies: \<^verbatim>\<open>Re-linked\<close> when it carries redirect metadata, also when it is
  unplayable as well; else \<^verbatim>\<open>Unplayable\<close> when it is not playable in the market; else
  \<^verbatim>\<open>OK\<close>.
\<close>

theorem classification_precedence:
  assumes "audit_track lib sp track_map resolved_track w = (w', Inr (Some log_entry))"
  shows "reason log_entry =
           (if linked_from resolved_track \<noteq> None then ''Re-linked''
            else if \<not> is_playable resolved_track then ''Unplayable''
            else ''OK'')"
  using assms by (rule audit_track_reason)

theorem classification_precedence_witness:
  "linked_from resolved_B \<noteq> None \<and> \<not> is_playable resolved_B \<and>
   (\<exists>w'. audit_track demo_lib demo_sp (original_track_map liked_page []) resolved_B demo_world = (w', Inr (Some entry_A))) \<and>
   reason entry_A = ''Re-linked''"
proof -
  obtain w' where a: "audit_track demo_lib demo_sp (original_track_map liked_page []) resolved_B demo_world
                      = (w', Inr (Some entry_A))"
    by (simp add: demo_defs step_defs)
  from classification_precedence [OF a] a show ?thesis
    by (auto simp: resolved_B_def)
qed

text \<open>
  Claim C3. The \<open>old_id\<close> of every record is the identifier under which the track
  stands in the page of the source: the identifier of \<^verbatim>\<open>linked_from\<close> when the resolved
  track carries redirect metadata, the resolved track's own identifier otherwise; it is
  the identifier of a track of an item of the page. For a redirected track the
  \<open>new_id\<close> is the resolved identifier. The witness is the example of the
  specification: \<^verbatim>\<open>linked_from.id = "A"\<close>, \<^verbatim>\<open>id = "B"\<close>, playable.
\<close>

theorem old_id_is_the_library_identifier:
  assumes "audit_track lib sp (original_track_map items []) resolved_track w = (w', Inr (Some log_entry))"
  shows "old_id log_entry = (case linked_from resolved_track of Some i \<Rightarrow> i | None \<Rightarrow> res_id resolved_track) \<and>
         (\<exists>t. Some (Some t) \<in> set items \<and> track_id t = Some (old_id log_entry)) \<and>
         (linked_from resolved_track \<noteq> None \<longrightarrow> new_id log_entry = res_id resolved_track)"
proof -
  define k where "k = (case linked_from resolved_track of Some i \<Rightarrow> i | None \<Rightarrow> res_id resolved_track)"
  have k: "(if linked_from resolved_track \<noteq> None then the (linked_from resolved_track)
            else res_id resolved_track) = k"
    by (simp add: k_def split: option.splits)
  have s: "\<And>cands e w1 e1 w2. search_loop lib cands e w1 = (e1, w2) \<Longrightarrow> old_id e1 = old_id e"
    using search_loop_entry(4) by (metis fst_conv)
  from assms obtain t where t: "map_of (original_track_map items []) k = Some t"
    unfolding audit_track_def Let_def k by (auto split: option.splits)
  then have lib: "Some (Some t) \<in> set items \<and> track_id t = Some k"
    using map_of_original_track_map by fastforce
  have old: "old_id log_entry = k"
    using assms unfolding audit_track_def Let_def k reading_def
    by (auto split: option.splits list.splits if_splits prod.splits sum.splits dest!: s)
  have new: "linked_from resolved_track \<noteq> None \<longrightarrow> new_id log_entry = res_id resolved_track"
    using assms unfolding audit_track_def Let_def k
    by (auto split: option.splits list.splits if_splits)
  from old lib new show ?thesis
    by (auto simp: k_def)
qed

theorem old_id_is_the_library_identifier_witness:
  "(\<exists>w'. audit_track demo_lib demo_sp (original_track_map liked_page []) (resolved_B\<lparr>is_playable := True\<rparr>) demo_world
           = (w', Inr (Some entry_A))) \<and>
   linked_from (resolved_B\<lparr>is_playable := True\<rparr>) = Some ''A'' \<and> res_id (resolved_B\<lparr>is_playable := True\<rparr>) = ''B'' \<and>
   old_id entry_A = ''A'' \<and> new_id entry_A = ''B'' \<and> reason entry_A = ''Re-linked'' \<and>
   (\<exists>t. Some (Some t) \<in> set liked_page \<and> track_id t = Some ''A'')"
proof -
  obtain w' where a: "audit_track demo_lib demo_sp (original_track_map liked_page []) (resolved_B\<lparr>is_playable := True\<rparr>)
                        demo_world = (w', Inr (Some entry_A))"
    by (simp add: demo_defs step_defs)
  from old_id_is_the_library_identifier [OF a] a show ?thesis
    by (auto simp: resolved_B_def entry_A_def)
qed

lemma audit_track_unplayable:
  fixes w :: "'s world"
  assumes run: "audit_track lib sp track_map resolved_track w = (w', Inr (Some log_entry))"
    and link: "linked_from resolved_track = None" and play: "\<not> is_playable resolved_track"
  shows "\<exists>e0 cands (w1 :: 's world).
           reason e0 = ''Unplayable'' \<and> new_id e0 = [] \<and> new_album e0 = [] \<and>
           search sp (service w) (title e0 @ '' artist:'' @ artist e0) 5 = Inr cands \<and>
           calls w' = calls w @ [Search (title e0 @ '' artist:'' @ artist e0) 5] \<and>
           log_entry = fst (search_loop lib cands e0 w1)"
proof -
  from run link obtain t where t: "map_of track_map (res_id resolved_track) = Some t"
    unfolding audit_track_def Let_def by (auto split: option.splits)
  from run link t obtain a rest where a: "track_artists t = a # rest"
    unfolding audit_track_def Let_def by (auto split: list.splits)
  define e0 where "e0 = \<lparr>artist = a, title = track_name t, old_album = track_album t,
                          old_id = res_id resolved_track, new_album = [], new_id = [],
                          reason = ''Unplayable''\<rparr>"
  from run link play t a obtain cands where
    c: "search sp (service w) (track_name t @ '' artist:'' @ a) 5 = Inr cands"
    unfolding audit_track_def Let_def reading_def
    by (auto split: sum.splits)
  define w1 where "w1 = fst (reading (Search (track_name t @ '' artist:'' @ a) 5) (Inr cands :: error + resolved list)
                          (print (NL @ ''[FOUND '' @ ''UNPLAYABLE'' @ '' TRACK]: '' @ QUOTE @ track_name t @ QUOTE
                          @ '' (by '' @ QUOTE @ a @ QUOTE @ '')'') w))"
  obtain e1 w2 where s: "search_loop lib cands e0 w1 = (e1, w2)"
    by (cases "search_loop lib cands e0 w1")
  have w2: "calls w2 = calls w1"
    using search_loop_fields(1) [of lib cands e0 w1] s by simp
  from run link play t a c s have r: "log_entry = e1 \<and> calls w' = calls w2"
    unfolding audit_track_def Let_def
    by (auto simp: print_fields e0_def w1_def reading_def split: if_splits)
  with s w2 have "log_entry = fst (search_loop lib cands e0 w1)"
    "calls w' = calls w @ [Search (track_name t @ '' artist:'' @ a) 5]"
    by (simp_all add: w1_def reading_def print_fields)
  with c show ?thesis
    by (intro exI [of _ e0] exI [of _ cands] exI [of _ w1]) (simp add: e0_def)
qed

text \<open>
  Claim C4. For a record classified \<^verbatim>\<open>Unplayable\<close> the catalogue was searched for
  \<^verbatim>\<open>"<title> artist:<artist>"\<close> with a limit of 5, and among the candidates returned,
  in their order, the first one that is playable and whose title is the title of the
  record up to case gives \<open>new_id\<close> and \<open>new_album\<close>; when no candidate is such, both
  stay empty.
\<close>

theorem first_matching_candidate_is_taken:
  fixes w :: "'s world"
  assumes run: "audit_track lib sp track_map resolved_track w = (w', Inr (Some log_entry))"
    and unplayable: "reason log_entry = ''Unplayable''"
  shows "\<exists>cands.
           search sp (service w) (title log_entry @ '' artist:'' @ artist log_entry) 5 = Inr cands \<and>
           calls w' = calls w @ [Search (title log_entry @ '' artist:'' @ artist log_entry) 5] \<and>
           ((\<exists>i<length cands.
               (is_playable (cands ! i) \<and> lower lib (res_name (cands ! i)) = lower lib (title log_entry)) \<and>
               (\<forall>j<i. \<not> (is_playable (cands ! j) \<and> lower lib (res_name (cands ! j)) = lower lib (title log_entry))) \<and>
               new_id log_entry = res_id (cands ! i) \<and> new_album log_entry = res_album (cands ! i))
            \<or> ((\<forall>p\<in>set cands. \<not> (is_playable p \<and> lower lib (res_name p) = lower lib (title log_entry))) \<and>
                new_id log_entry = [] \<and> new_album log_entry = []))"
proof -
  from audit_track_reason [OF run] unplayable
  have "linked_from resolved_track = None" "\<not> is_playable resolved_track"
    by (auto split: if_splits)
  from audit_track_unplayable [OF run this] obtain e0 cands and w1 :: "'s world" where
    e0: "reason e0 = ''Unplayable''" "new_id e0 = []" "new_album e0 = []"
    and c: "search sp (service w) (title e0 @ '' artist:'' @ artist e0) 5 = Inr cands"
    and k: "calls w' = calls w @ [Search (title e0 @ '' artist:'' @ artist e0) 5]"
    and l: "log_entry = fst (search_loop lib cands e0 w1)"
    by blast
  from l have same: "title log_entry = title e0" "artist log_entry = artist e0"
    by (simp_all add: search_loop_entry)
  from search_loop_first [of cands lib e0 w1] l e0 same
  have "(\<exists>i<length cands.
               (is_playable (cands ! i) \<and> lower lib (res_name (cands ! i)) = lower lib (title log_entry)) \<and>
               (\<forall>j<i. \<not> (is_playable (cands ! j) \<and> lower lib (res_name (cands ! j)) = lower lib (title log_entry))) \<and>
               new_id log_entry = res_id (cands ! i) \<and> new_album log_entry = res_album (cands ! i))
            \<or> ((\<forall>p\<in>set cands. \<not> (is_playable p \<and> lower lib (res_name p) = lower lib (title log_entry))) \<and>
                new_id log_entry = [] \<and> new_album log_entry = [])"
    by (elim disjE exE conjE) (auto intro!: exI)
  with c k same show ?thesis
    by (intro exI [of _ cands]) simp
qed

theorem first_matching_candidate_is_taken_witness:
  "(\<exists>w'. audit_track demo_lib demo_sp (original_track_map liked_page []) resolved_C demo_world = (w', Inr (Some entry_C))) \<and>
   reason entry_C = ''Unplayable'' \<and>
   search demo_sp (service demo_world) ''Tune artist:Beck'' 5 = Inr candidates \<and>
   \<not> is_playable (candidates ! 0) \<and> lower demo_lib (res_name (candidates ! 1)) \<noteq> lower demo_lib (title entry_C) \<and>
   is_playable (candidates ! 2) \<and> lower demo_lib (res_name (candidates ! 2)) = lower demo_lib (title entry_C) \<and>
   new_id entry_C = res_id (candidates ! 2) \<and> new_album entry_C = res_album (candidates ! 2)"
proof -
  obtain w' where a: "audit_track demo_lib demo_sp (original_track_map liked_page []) resolved_C demo_world
                      = (w', Inr (Some entry_C))"
    by (simp add: demo_defs step_defs)
  have u: "reason entry_C = ''Unplayable''"
    by (simp add: entry_C_def)
  from first_matching_candidate_is_taken [OF a u] a u show ?thesis
    by (simp add: demo_defs demo_defs)
qed

section \<open>The report\<close>

lemma append_rows_held:
  "append_rows lib rows = Inr sheet \<Longrightarrow>
     list_all2 (\<lambda>held row. append_cells lib row = Inr held) sheet rows"
proof (induction rows arbitrary: sheet)
  case Nil
  then show ?case by simp
next
  case (Cons row rows)
  then show ?case
    by (auto split: sum.splits)
qed

lemma append_cells_unchanged:
  "list_all (\<lambda>c. case c of Str s \<Rightarrow> check_string lib s = Inr s | Num n \<Rightarrow> True) cells \<Longrightarrow>
     append_cells lib cells = Inr cells"
  by (induction lib cells rule: append_cells.induct) auto

lemma write_report_none:
  fixes w :: "'s world"
  assumes "write_report lib ctx log w = (w', None)" and "log \<noteq> []"
  shows "\<exists>ws_summary ws_audit.
           append_rows lib (summary_rows ctx log) = Inr ws_summary \<and>
           append_rows lib (audit_rows log) = Inr ws_audit \<and>
           save_error w (''spotify_song_audit_'' @ now_stamp ctx @ ''.xlsx'') = None \<and>
           files w' = files w @ [(''spotify_song_audit_'' @ now_stamp ctx @ ''.xlsx'',
                                  [(''Run Summary'', ws_summary), (''Audit Report'', ws_audit)])] \<and>
           calls w' = calls w \<and> service w' = service w \<and> states w' = states w"
proof -
  from assms obtain ws_summary where s: "append_rows lib (summary_rows ctx log) = Inr ws_summary"
    by (cases "append_rows lib (summary_rows ctx log)") (auto simp: write_report_def Let_def)
  from assms s obtain ws_audit where a: "append_rows lib (audit_rows log) = Inr ws_audit"
    by (cases "append_rows lib (audit_rows log)") (auto simp: write_report_def Let_def)
  have w': "w' = fst (write_report lib ctx log w)"
    using assms by simp
  have n: "save_error w (''spotify_song_audit_'' @ now_stamp ctx @ ''.xlsx'') = None"
    using assms s a
    by (cases "save_error w (''spotify_song_audit_'' @ now_stamp ctx @ ''.xlsx'')")
      (simp_all add: write_report_def Let_def)
  have "files w' = files w @ [(''spotify_song_audit_'' @ now_stamp ctx @ ''.xlsx'',
                                  [(''Run Summary'', ws_summary), (''Audit Report'', ws_audit)])]"
    "calls w' = calls w" "service w' = service w" "states w' = states w"
    unfolding w' using assms(2) s a n by (simp_all add: write_report_def Let_def print_fields)
  with s a n show ?thesis
    by blast
qed

lemma write_report_some:
  "write_report lib ctx log w = (w', Some e) \<Longrightarrow> w' = w"
  by (auto simp: write_report_def Let_def split: if_splits sum.splits option.splits)

lemma write_report_result:
  "snd (write_report lib ctx log w) = None \<longleftrightarrow>
     log = [] \<or>
     ((\<exists>sheet. append_rows lib (summary_rows ctx log) = Inr sheet) \<and>
      (\<exists>sheet. append_rows lib (audit_rows log) = Inr sheet) \<and>
      save_error w (''spotify_song_audit_'' @ now_stamp ctx @ ''.xlsx'') = None)"
proof (cases "log = []")
  case True
  then show ?thesis by (simp add: write_report_def)
next
  case False
  show ?thesis
  proof (cases "append_rows lib (summary_rows ctx log)")
    case (Inl e)
    with False show ?thesis by (simp add: write_report_def Let_def)
  next
    case s: (Inr ws_summary)
    show ?thesis
    proof (cases "append_rows lib (audit_rows log)")
      case (Inl e)
      with False s show ?thesis by (simp add: write_report_def Let_def)
    next
      case a: (Inr ws_audit)
      show ?thesis
      proof (cases "save_error w (''spotify_song_audit_'' @ now_stamp ctx @ ''.xlsx'')")
        case None
        have "snd (write_report lib ctx log w) = None"
          using False s a None by (simp add: write_report_def Let_def)
        with False s a None show ?thesis by simp
      next
        case (Some e)
        have "snd (write_report lib ctx log w) = Some e"
          using False s a Some by (simp add: write_report_def Let_def)
        with False s a Some show ?thesis by simp
      qed
    qed
  qed
qed

lemma report_is_written:
  fixes w :: "'s world"
  assumes "write_report lib ctx log w = (w', None)" and "log \<noteq> []"
  shows "\<exists>ws_summary header rows.
           files w' = files w @
             [(''spotify_song_audit_'' @ now_stamp ctx @ ''.xlsx'',
               [(''Run Summary'', ws_summary), (''Audit Report'', header # rows)])] \<and>
           append_cells lib headers = Inr header \<and>
           list_all2 (\<lambda>row t. append_cells lib (audit_row t) = Inr row) rows log"
proof -
  from write_report_none [OF assms] obtain ws_summary ws_audit where
    a: "append_rows lib (audit_rows log) = Inr ws_audit"
    and f: "files w' = files w @ [(''spotify_song_audit_'' @ now_stamp ctx @ ''.xlsx'',
                              [(''Run Summary'', ws_summary), (''Audit Report'', ws_audit)])]"
    by auto
  from append_rows_held [OF a] obtain header rows where
    h: "ws_audit = header # rows" "append_cells lib headers = Inr header"
      "list_all2 (\<lambda>held row. append_cells lib row = Inr held) rows (map audit_row log)"
    by (auto simp: audit_rows_def list_all2_Cons2)
  from h(3) have "list_all2 (\<lambda>row t. append_cells lib (audit_row t) = Inr row) rows log"
    by (simp add: list_all2_map2)
  moreover from f h(1) have "files w' = files w @
             [(''spotify_song_audit_'' @ now_stamp ctx @ ''.xlsx'',
               [(''Run Summary'', ws_summary), (''Audit Report'', header # rows)])]"
    by simp
  ultimately show ?thesis
    using h(2) by blast
qed

text \<open>
  Claim C8. With no record, step 6 writes no file. With records it writes a file
  exactly when the library refuses no cell of the two sheets and saving does not fail;
  an exception in either leaves \<^verbatim>\<open>main\<close> and there is no file. The file holds one workbook
  of exactly two sheets. The second, the audit sheet, has for its first row what the
  library holds for the seven words \<^verbatim>\<open>Reason, Artist, Title, Old Album Name, Old Track Id,
  New Album Name, New Track Id\<close>, which are these words when the library holds them as
  they are, and then one row for each record, in the order of the records: what the
  library holds for the seven fields of the record.
\<close>

theorem report_is_written_only_for_records:
  fixes w :: "'s world"
  assumes "write_report lib ctx log w = (w', r)"
  shows "(if log = [] then files w' = files w \<and> r = None
          else case r of
                 Some e \<Rightarrow> files w' = files w
               | None \<Rightarrow>
                   (\<exists>ws_summary header rows.
                      files w' = files w @
                        [(''spotify_song_audit_'' @ now_stamp ctx @ ''.xlsx'',
                          [(''Run Summary'', ws_summary), (''Audit Report'', header # rows)])] \<and>
                      append_cells lib
                        [Str ''Reason'', Str ''Artist'', Str ''Title'', Str ''Old Album Name'',
                         Str ''Old Track Id'', Str ''New Album Name'', Str ''New Track Id''] = Inr header \<and>
                      (list_all (\<lambda>s. check_string lib s = Inr s)
                         [''Reason'', ''Artist'', ''Title'', ''Old Album Name'',
                          ''Old Track Id'', ''New Album Name'', ''New Track Id''] \<longrightarrow>
                       header = [Str ''Reason'', Str ''Artist'', Str ''Title'', Str ''Old Album Name'',
                                 Str ''Old Track Id'', Str ''New Album Name'', Str ''New Track Id'']) \<and>
                      list_all2
                        (\<lambda>row t. append_cells lib
                                    [Str (reason t), Str (artist t), Str (title t), Str (old_album t),
                                     Str (old_id t), Str (new_album t), Str (new_id t)] = Inr row)
                        rows log)) \<and>
         (r = None \<longleftrightarrow>
            log = [] \<or>
            ((\<exists>sheet. append_rows lib (summary_rows ctx log) = Inr sheet) \<and>
             (\<exists>sheet. append_rows lib (audit_rows log) = Inr sheet) \<and>
             save_error w (''spotify_song_audit_'' @ now_stamp ctx @ ''.xlsx'') = None))"
proof (intro conjI)
  show "r = None \<longleftrightarrow>
          log = [] \<or>
          ((\<exists>sheet. append_rows lib (summary_rows ctx log) = Inr sheet) \<and>
           (\<exists>sheet. append_rows lib (audit_rows log) = Inr sheet) \<and>
           save_error w (''spotify_song_audit_'' @ now_stamp ctx @ ''.xlsx'') = None)"
    using write_report_result [of lib ctx log w] assms by simp
next
  show "if log = [] then files w' = files w \<and> r = None
        else case r of
               Some e \<Rightarrow> files w' = files w
             | None \<Rightarrow>
                 (\<exists>ws_summary header rows.
                    files w' = files w @
                      [(''spotify_song_audit_'' @ now_stamp ctx @ ''.xlsx'',
                        [(''Run Summary'', ws_summary), (''Audit Report'', header # rows)])] \<and>
                    append_cells lib
                      [Str ''Reason'', Str ''Artist'', Str ''Title'', Str ''Old Album Name'',
                       Str ''Old Track Id'', Str ''New Album Name'', Str ''New Track Id''] = Inr header \<and>
                    (list_all (\<lambda>s. check_string lib s = Inr s)
                       [''Reason'', ''Artist'', ''Title'', ''Old Album Name'',
                        ''Old Track Id'', ''New Album Name'', ''New Track Id''] \<longrightarrow>
                     header = [Str ''Reason'', Str ''Artist'', Str ''Title'', Str ''Old Album Name'',
                               Str ''Old Track Id'', Str ''New Album Name'', Str ''New Track Id'']) \<and>
                    list_all2
                      (\<lambda>row t. append_cells lib
                                  [Str (reason t), Str (artist t), Str (title t), Str (old_album t),
                                   Str (old_id t), Str (new_album t), Str (new_id t)] = Inr row)
                      rows log)"
  proof (cases "log = []")
    case True
    with assms show ?thesis
      by (simp add: write_report_def)
  next
    case False
    show ?thesis
    proof (cases r)
      case (Some e)
      with assms have "w' = w" by (simp add: write_report_some)
      with False Some show ?thesis by simp
    next
      case None
      with assms have "write_report lib ctx log w = (w', None)" by simp
      from report_is_written [OF this False] obtain ws_summary header rows where
        f: "files w' = files w @
             [(''spotify_song_audit_'' @ now_stamp ctx @ ''.xlsx'',
               [(''Run Summary'', ws_summary), (''Audit Report'', header # rows)])]"
        and hd: "append_cells lib headers = Inr header"
        and rs: "list_all2 (\<lambda>row t. append_cells lib (audit_row t) = Inr row) rows log"
        by blast
      from rs have rows: "list_all2
                      (\<lambda>row t. append_cells lib
                                  [Str (reason t), Str (artist t), Str (title t), Str (old_album t),
                                   Str (old_id t), Str (new_album t), Str (new_id t)] = Inr row)
                      rows log"
        by (simp only: audit_row_def)
      have lit: "list_all (\<lambda>s. check_string lib s = Inr s)
                       [''Reason'', ''Artist'', ''Title'', ''Old Album Name'',
                        ''Old Track Id'', ''New Album Name'', ''New Track Id''] \<longrightarrow>
                     header = [Str ''Reason'', Str ''Artist'', Str ''Title'', Str ''Old Album Name'',
                               Str ''Old Track Id'', Str ''New Album Name'', Str ''New Track Id'']"
      proof
        assume "list_all (\<lambda>s. check_string lib s = Inr s)
                       [''Reason'', ''Artist'', ''Title'', ''Old Album Name'',
                        ''Old Track Id'', ''New Album Name'', ''New Track Id'']"
        then have "append_cells lib headers = Inr headers"
          by (intro append_cells_unchanged) (simp add: headers_def)
        with hd show "header = [Str ''Reason'', Str ''Artist'', Str ''Title'', Str ''Old Album Name'',
                               Str ''Old Track Id'', Str ''New Album Name'', Str ''New Track Id'']"
          by (simp add: headers_def)
      qed
      from hd have "append_cells lib
                      [Str ''Reason'', Str ''Artist'', Str ''Title'', Str ''Old Album Name'',
                       Str ''Old Track Id'', Str ''New Album Name'', Str ''New Track Id''] = Inr header"
        by (simp add: headers_def)
      moreover note f
      ultimately have "\<exists>ws_summary header rows.
                    files w' = files w @
                      [(''spotify_song_audit_'' @ now_stamp ctx @ ''.xlsx'',
                        [(''Run Summary'', ws_summary), (''Audit Report'', header # rows)])] \<and>
                    append_cells lib
                      [Str ''Reason'', Str ''Artist'', Str ''Title'', Str ''Old Album Name'',
                       Str ''Old Track Id'', Str ''New Album Name'', Str ''New Track Id''] = Inr header \<and>
                    (list_all (\<lambda>s. check_string lib s = Inr s)
                       [''Reason'', ''Artist'', ''Title'', ''Old Album Name'',
                        ''Old Track Id'', ''New Album Name'', ''New Track Id''] \<longrightarrow>
                     header = [Str ''Reason'', Str ''Artist'', Str ''Title'', Str ''Old Album Name'',
                               Str ''Old Track Id'', Str ''New Album Name'', Str ''New Track Id'']) \<and>
                    list_all2
                      (\<lambda>row t. append_cells lib
                                  [Str (reason t), Str (artist t), Str (title t), Str (old_album t),
                                   Str (old_id t), Str (new_album t), Str (new_id t)] = Inr row)
                      rows log"
        using rows lit by blast
      then show ?thesis
        by (simp only: False None if_False option.case)
    qed
  qed
qed

theorem report_is_written_only_for_records_witness:
  "files (fst (write_report demo_lib dry_ctx [] demo_world)) = [] \<and>
   (\<exists>ws_summary. files (fst (write_report demo_lib dry_ctx [entry_A, entry_C, entry_F] demo_world)) =
      [(''spotify_song_audit_20240101-1200.xlsx'',
        [(''Run Summary'', ws_summary),
         (''Audit Report'',
          [[Str ''Reason'', Str ''Artist'', Str ''Title'', Str ''Old Album Name'',
            Str ''Old Track Id'', Str ''New Album Name'', Str ''New Track Id''],
           [Str ''Re-linked'', Str ''Abba'', Str ''Song'', Str ''Old'', Str ''A'', Str ''New'', Str ''B''],
           [Str ''Unplayable'', Str ''Beck'', Str ''Tune'', Str ''Lost'', Str ''C'', Str ''Found'', Str ''D''],
           [Str ''OK'', Str ''Abba'', Str ''Fine'', Str ''Good'', Str ''F'', Str [], Str []]])])]) \<and>
   write_report demo_lib dry_ctx [entry_bad] demo_world
     = (demo_world, Some (IllegalCharacterError (title entry_bad)))"
proof -
  obtain w0 r0 where e: "write_report demo_lib dry_ctx [] demo_world = (w0, r0)"
    by (cases "write_report demo_lib dry_ctx [] demo_world")
  obtain w1 where f: "write_report demo_lib dry_ctx [entry_A, entry_C, entry_F] demo_world = (w1, None)"
    by (simp add: demo_defs step_defs)
  have b: "write_report demo_lib dry_ctx [entry_bad] demo_world
             = (demo_world, Some (IllegalCharacterError (title entry_bad)))"
    by (simp add: demo_defs step_defs entry_bad_def)
  have c: "list_all (\<lambda>s. check_string demo_lib s = Inr s)
             [''Reason'', ''Artist'', ''Title'', ''Old Album Name'',
              ''Old Track Id'', ''New Album Name'', ''New Track Id'']"
    by (simp add: demo_defs)
  from report_is_written_only_for_records [OF e] e have "files (fst (write_report demo_lib dry_ctx [] demo_world)) = []"
    by (simp add: demo_world_def)
  moreover from report_is_written_only_for_records [OF f] c f
  have "\<exists>ws_summary. files (fst (write_report demo_lib dry_ctx [entry_A, entry_C, entry_F] demo_world)) =
      [(''spotify_song_audit_20240101-1200.xlsx'',
        [(''Run Summary'', ws_summary),
         (''Audit Report'',
          [[Str ''Reason'', Str ''Artist'', Str ''Title'', Str ''Old Album Name'',
            Str ''Old Track Id'', Str ''New Album Name'', Str ''New Track Id''],
           [Str ''Re-linked'', Str ''Abba'', Str ''Song'', Str ''Old'', Str ''A'', Str ''New'', Str ''B''],
           [Str ''Unplayable'', Str ''Beck'', Str ''Tune'', Str ''Lost'', Str ''C'', Str ''Found'', Str ''D''],
           [Str ''OK'', Str ''Abba'', Str ''Fine'', Str ''Good'', Str ''F'', Str [], Str []]])])]"
    by (auto simp: demo_defs list_all2_Cons2)
  ultimately show ?thesis
    using b by blast
qed

section \<open>The live run\<close>

lemma changing_fields:
  "calls (fst (changing c answer w)) = calls w @ [c]"
  "service (fst (changing c answer w)) = snd answer"
  "console (fst (changing c answer w)) = console w"
  "files (fst (changing c answer w)) = files w"
  "snd (changing c answer w) = fst answer"
  by (simp_all add: changing_def)

lemma replace_track_effect:
  fixes w :: "'s world"
  assumes "replace_track sp ctx i total_to_process pair w = (w', r)"
  shows "(case fst (add_op sp ctx (service w) pair) of
            Some e \<Rightarrow>
              calls w' = calls w @ [add_call ctx pair] \<and>
              service w' = snd (add_op sp ctx (service w) pair) \<and> r = Some e
          | None \<Rightarrow>
              calls w' = calls w @ [add_call ctx pair, remove_call ctx pair] \<and>
              service w' = snd (remove_op sp ctx (snd (add_op sp ctx (service w) pair)) pair) \<and>
              r = fst (remove_op sp ctx (snd (add_op sp ctx (service w) pair)) pair))"
proof (cases "truthy (PLAYLIST_ID ctx)")
  case True
  with assms show ?thesis
    unfolding replace_track_def Let_def add_op_def remove_op_def add_call_def remove_call_def changing_def
    by (auto simp: print_fields split: option.splits prod.splits)
next
  case False
  with assms show ?thesis
    unfolding replace_track_def Let_def add_op_def remove_op_def add_call_def remove_call_def changing_def
    by (auto simp: print_fields split: option.splits prod.splits)
qed

lemma replace_track_states:
  fixes w :: "'s world"
  assumes "replace_track sp ctx i total_to_process pair w = (w', r)"
  shows "(case fst (add_op sp ctx (service w) pair) of
            Some e \<Rightarrow> states w' = states w @ [snd (add_op sp ctx (service w) pair)]
          | None \<Rightarrow>
              states w' = states w @ [snd (add_op sp ctx (service w) pair),
                                      snd (remove_op sp ctx (snd (add_op sp ctx (service w) pair)) pair)])"
proof (cases "truthy (PLAYLIST_ID ctx)")
  case True
  with assms show ?thesis
    unfolding replace_track_def Let_def add_op_def remove_op_def changing_def
    by (auto simp: print_fields split: option.splits prod.splits)
next
  case False
  with assms show ?thesis
    unfolding replace_track_def Let_def add_op_def remove_op_def changing_def
    by (auto simp: print_fields split: option.splits prod.splits)
qed

lemma replace_track_calls:
  "calls (fst (replace_track sp ctx i total_to_process pair w)) = calls w @ [add_call ctx pair] \<or>
   calls (fst (replace_track sp ctx i total_to_process pair w)) = calls w @ [add_call ctx pair, remove_call ctx pair]"
  using replace_track_effect [of sp ctx i total_to_process pair w "fst (replace_track sp ctx i total_to_process pair w)"
      "snd (replace_track sp ctx i total_to_process pair w)"]
  by (auto split: option.splits)

lemma replace_track_keeps:
  "files (fst (replace_track sp ctx i total_to_process pair w)) = files w"
  "\<exists>ls. console (fst (replace_track sp ctx i total_to_process pair w)) = console w @ ls"
  unfolding replace_track_def Let_def changing_def
  by (auto simp: print_fields split: option.splits prod.splits)

lemma replacement_loop_append:
  "replacement_loop lib sp ctx i total_to_process (xs @ ys) n w =
     (case replacement_loop lib sp ctx i total_to_process xs n w of
        (n1, w1) \<Rightarrow> replacement_loop lib sp ctx (i + length xs) total_to_process ys n1 w1)"
  by (induction xs arbitrary: i n w) (auto split: prod.splits option.splits)

lemma replacement_loop_keeps:
  "files (snd (replacement_loop lib sp ctx i total_to_process xs n w)) = files w \<and>
   (\<exists>ls. console (snd (replacement_loop lib sp ctx i total_to_process xs n w)) = console w @ ls)"
proof (induction xs arbitrary: i n w)
  case Nil
  then show ?case by simp
next
  case (Cons pair xs)
  show ?case
  proof (cases "skipped lib ctx pair")
    case True
    with Cons show ?thesis by simp
  next
    case False
    obtain w1 r where t: "replace_track sp ctx i total_to_process pair w = (w1, r)"
      by (cases "replace_track sp ctx i total_to_process pair w")
    with replace_track_keeps [of sp ctx i total_to_process pair w]
    obtain ls where k: "files w1 = files w" "console w1 = console w @ ls"
      by auto
    show ?thesis
    proof (cases r)
      case None
      with False t k Cons.IH [of "Suc i" "Suc n" w1] show ?thesis by auto
    next
      case (Some e)
      define w2 where "w2 = print (''An error occurred while replacing track '' @ old_id pair @ '': '' @ str_error e) w1"
      have "files w2 = files w" "\<exists>ls. console w2 = console w @ ls"
        using k by (simp_all add: w2_def print_fields)
      with Some False t Cons.IH [of "Suc i" n w2] show ?thesis
        unfolding w2_def by auto
    qed
  qed
qed

lemma replacement_loop_calls:
  "\<exists>css. calls (snd (replacement_loop lib sp ctx i total_to_process xs n w)) = calls w @ concat css \<and>
         list_all2 (\<lambda>cs pair. cs = [add_call ctx pair] \<or> cs = [add_call ctx pair, remove_call ctx pair])
           css (filter (\<lambda>t. \<not> skipped lib ctx t) xs)"
proof (induction xs arbitrary: i n w)
  case Nil
  then show ?case by simp
next
  case (Cons pair xs)
  show ?case
  proof (cases "skipped lib ctx pair")
    case True
    with Cons show ?thesis by simp
  next
    case False
    obtain w1 r where t: "replace_track sp ctx i total_to_process pair w = (w1, r)"
      by (cases "replace_track sp ctx i total_to_process pair w")
    define cs where "cs = drop (length (calls w)) (calls w1)"
    from replace_track_calls [of sp ctx i total_to_process pair w] t
    have cs: "calls w1 = calls w @ cs" "cs = [add_call ctx pair] \<or> cs = [add_call ctx pair, remove_call ctx pair]"
      by (auto simp: cs_def)
    define w2 where "w2 = (case r of None \<Rightarrow> w1
        | Some e \<Rightarrow> print (''An error occurred while replacing track '' @ old_id pair @ '': '' @ str_error e) w1)"
    define n2 where "n2 = (case r of None \<Rightarrow> Suc n | Some e \<Rightarrow> n)"
    have w2: "calls w2 = calls w @ cs"
      using cs by (simp add: w2_def print_fields split: option.splits)
    have step: "replacement_loop lib sp ctx i total_to_process (pair # xs) n w = replacement_loop lib sp ctx (Suc i) total_to_process xs n2 w2"
      using False t by (simp add: w2_def n2_def split: option.splits)
    from Cons.IH [of "Suc i" n2 w2] obtain css where
      css: "calls (snd (replacement_loop lib sp ctx (Suc i) total_to_process xs n2 w2)) = calls w2 @ concat css"
        "list_all2 (\<lambda>cs pair. cs = [add_call ctx pair] \<or> cs = [add_call ctx pair, remove_call ctx pair])
           css (filter (\<lambda>t. \<not> skipped lib ctx t) xs)"
      by blast
    show ?thesis
      using False step css cs w2 by (intro exI [of _ "cs # css"]) simp
  qed
qed

lemma adding_add_call: "adding (add_call ctx pair)" "\<not> adding (remove_call ctx pair)"
  by (simp_all add: add_call_def remove_call_def)

lemma adding_count:
  "list_all2 (\<lambda>cs pair. cs = [add_call ctx pair] \<or> cs = [add_call ctx pair, remove_call ctx pair]) css ps \<Longrightarrow>
     filter adding (concat css) = map (add_call ctx) ps"
  by (induction css ps rule: list_all2_induct) (auto simp: adding_add_call)


lemma not_skipped_iff:
  "(\<not> skipped lib ctx t) =
     (case TEST_MODE_ARTIST ctx of None \<Rightarrow> True | Some a \<Rightarrow> a = [] \<or> lower lib (artist t) = lower lib a)"
  by (cases "TEST_MODE_ARTIST ctx") (auto simp: skipped_def)

lemma live_run_calls:
  fixes w :: "'s world"
  assumes live: "\<not> DRY_RUN ctx"
  shows "(\<exists>css. calls (live_run lib sp ctx log w) = calls w @ concat css \<and>
            list_all2 (\<lambda>cs pair. cs = [add_call ctx pair] \<or> cs = [add_call ctx pair, remove_call ctx pair]) css
              (filter (\<lambda>t. new_id t \<noteq> [] \<and>
                           (case TEST_MODE_ARTIST ctx of None \<Rightarrow> True
                            | Some a \<Rightarrow> a = [] \<or> lower lib (artist t) = lower lib a)) log)) \<and>
         files (live_run lib sp ctx log w) = files w"
proof -
  define todo where "todo = filter (\<lambda>t. new_id t \<noteq> [] \<and>
      (case TEST_MODE_ARTIST ctx of None \<Rightarrow> True | Some a \<Rightarrow> a = [] \<or> lower lib (artist t) = lower lib a)) log"
  have todo: "filter (\<lambda>t. \<not> skipped lib ctx t) (tracks_to_process log) = todo"
    by (simp add: todo_def tracks_to_process_def not_skipped_iff)
  define start where "start = print (NL @ ''Starting replacement process...'') w"
  define loop where "loop = replacement_loop lib sp ctx 1 (length (tracks_to_process log)) (tracks_to_process log) 0 start"
  have "\<exists>css. calls (live_run lib sp ctx log w) = calls w @ concat css \<and>
          list_all2 (\<lambda>cs pair. cs = [add_call ctx pair] \<or> cs = [add_call ctx pair, remove_call ctx pair]) css todo"
  proof (cases "tracks_to_process log = []")
    case True
    with todo have "todo = []" by simp
    moreover from True live have "calls (live_run lib sp ctx log w) = calls w"
      by (simp add: live_run_def print_fields)
    ultimately show ?thesis by simp
  next
    case False
    from replacement_loop_calls [of lib sp ctx 1 "length (tracks_to_process log)" "tracks_to_process log" 0 start]
    obtain css where css: "calls (snd loop) = calls start @ concat css"
      "list_all2 (\<lambda>cs pair. cs = [add_call ctx pair] \<or> cs = [add_call ctx pair, remove_call ctx pair]) css todo"
      unfolding loop_def todo by blast
    from False live have "calls (live_run lib sp ctx log w) = calls (snd loop)"
      by (simp add: live_run_def Let_def print_fields loop_def start_def case_prod_beta)
    with css show ?thesis
      by (intro exI [of _ css]) (simp add: start_def print_fields)
  qed
  moreover have "files (live_run lib sp ctx log w) = files w"
  proof (cases "tracks_to_process log = []")
    case True
    with live show ?thesis by (simp add: live_run_def print_fields)
  next
    case False
    from replacement_loop_keeps [of lib sp ctx 1 "length (tracks_to_process log)" "tracks_to_process log" 0 start]
    have "files (snd loop) = files w"
      by (simp add: loop_def start_def print_fields)
    with False live show ?thesis
      by (simp add: live_run_def Let_def print_fields loop_def start_def case_prod_beta)
  qed
  ultimately show ?thesis
    unfolding todo_def by blast
qed

text \<open>
  Claim C5. In a live run whose steps 6 and 7 no exception leaves, the calls that are
  issued are, record by record and in the order of the audit, the call that adds
  (followed or not by the call that removes) for exactly the records with a non-empty
  \<open>new_id\<close> whose artist, when a test artist is set, equals it after \<^verbatim>\<open>lower()\<close>. No
  call is issued for any other record. The report file that the same run has written
  has a row for every record of the audit, those passed over included.
\<close>

theorem live_run_acts_on_the_found_replacements:
  fixes w :: "'s world"
  assumes live: "\<not> DRY_RUN ctx"
    and run: "report_and_live_run lib sp ctx log w = (w', 0)"
  shows "(\<exists>css. calls w' = calls w @ concat css \<and>
            list_all2 (\<lambda>cs pair. cs = [add_call ctx pair] \<or> cs = [add_call ctx pair, remove_call ctx pair]) css
              (filter (\<lambda>t. new_id t \<noteq> [] \<and>
                           (case TEST_MODE_ARTIST ctx of None \<Rightarrow> True
                            | Some a \<Rightarrow> a = [] \<or> lower lib (artist t) = lower lib a)) log)) \<and>
         (log \<noteq> [] \<longrightarrow>
            (\<exists>ws_summary header rows.
               files w' = files w @
                 [(''spotify_song_audit_'' @ now_stamp ctx @ ''.xlsx'',
                   [(''Run Summary'', ws_summary), (''Audit Report'', header # rows)])] \<and>
               list_all2
                 (\<lambda>row t. append_cells lib
                             [Str (reason t), Str (artist t), Str (title t), Str (old_album t),
                              Str (old_id t), Str (new_album t), Str (new_id t)] = Inr row)
                 rows log))"
proof -
  define ws where "ws = print_summary ctx log w"
  obtain w2 r where wr: "write_report lib ctx log ws = (w2, r)"
    by (cases "write_report lib ctx log ws")
  have r: "r = None"
  proof (cases r)
    case None
    then show ?thesis .
  next
    case (Some e)
    with wr run show ?thesis
      by (simp add: report_and_live_run_def ws_def unexpected_def)
  qed
  with wr run have w': "w' = live_run lib sp ctx log w2"
    by (simp add: report_and_live_run_def ws_def)
  have ws: "calls ws = calls w" "files ws = files w"
    by (simp_all add: ws_def print_summary_def Let_def print_fields)
  have k: "calls w2 = calls w"
  proof (cases "log = []")
    case True
    with wr ws show ?thesis by (simp add: write_report_def)
  next
    case False
    with write_report_none [of lib ctx log ws w2] wr r ws show ?thesis by auto
  qed
  from live_run_calls [OF live, of lib sp log w2] k w'
  have acts: "\<exists>css. calls w' = calls w @ concat css \<and>
            list_all2 (\<lambda>cs pair. cs = [add_call ctx pair] \<or> cs = [add_call ctx pair, remove_call ctx pair]) css
              (filter (\<lambda>t. new_id t \<noteq> [] \<and>
                           (case TEST_MODE_ARTIST ctx of None \<Rightarrow> True
                            | Some a \<Rightarrow> a = [] \<or> lower lib (artist t) = lower lib a)) log)"
    and same: "files w' = files w2"
    by simp_all
  have report: "log \<noteq> [] \<longrightarrow>
            (\<exists>ws_summary header rows.
               files w' = files w @
                 [(''spotify_song_audit_'' @ now_stamp ctx @ ''.xlsx'',
                   [(''Run Summary'', ws_summary), (''Audit Report'', header # rows)])] \<and>
               list_all2
                 (\<lambda>row t. append_cells lib
                             [Str (reason t), Str (artist t), Str (title t), Str (old_album t),
                              Str (old_id t), Str (new_album t), Str (new_id t)] = Inr row)
                 rows log)"
  proof
    assume "log \<noteq> []"
    from report_is_written [OF wr [unfolded r] this] obtain ws_summary header rows where
      "files w2 = files ws @
             [(''spotify_song_audit_'' @ now_stamp ctx @ ''.xlsx'',
               [(''Run Summary'', ws_summary), (''Audit Report'', header # rows)])]"
      "list_all2 (\<lambda>row t. append_cells lib (audit_row t) = Inr row) rows log"
      by blast
    then have "files w' = files w @
             [(''spotify_song_audit_'' @ now_stamp ctx @ ''.xlsx'',
               [(''Run Summary'', ws_summary), (''Audit Report'', header # rows)])]"
      "list_all2
                 (\<lambda>row t. append_cells lib
                             [Str (reason t), Str (artist t), Str (title t), Str (old_album t),
                              Str (old_id t), Str (new_album t), Str (new_id t)] = Inr row)
                 rows log"
      using same ws by (simp_all only: audit_row_def)
    then show
      "\<exists>ws_summary header rows.
               files w' = files w @
                 [(''spotify_song_audit_'' @ now_stamp ctx @ ''.xlsx'',
                   [(''Run Summary'', ws_summary), (''Audit Report'', header # rows)])] \<and>
               list_all2
                 (\<lambda>row t. append_cells lib
                             [Str (reason t), Str (artist t), Str (title t), Str (old_album t),
                              Str (old_id t), Str (new_album t), Str (new_id t)] = Inr row)
                 rows log"
      by blast
  qed
  from acts report show ?thesis
    by (rule conjI)
qed

theorem live_run_acts_on_the_found_replacements_witness:
  "\<not> DRY_RUN beck_ctx \<and> TEST_MODE_ARTIST beck_ctx = Some ''BECK'' \<and>
   new_id entry_A \<noteq> [] \<and> artist entry_A = ''Abba'' \<and> artist entry_C = ''Beck'' \<and> new_id entry_F = [] \<and>
   (\<exists>w'. report_and_live_run demo_lib demo_sp beck_ctx [entry_A, entry_C, entry_F] demo_world = (w', 0) \<and>
      (\<exists>css. calls w' = calls demo_world @ concat css \<and>
         list_all2 (\<lambda>cs pair. cs = [add_call beck_ctx pair] \<or> cs = [add_call beck_ctx pair, remove_call beck_ctx pair])
           css [entry_C]) \<and>
      (\<exists>ws_summary header rows.
         files w' = [(''spotify_song_audit_20240101-1200.xlsx'',
                      [(''Run Summary'', ws_summary), (''Audit Report'', header # rows)])] \<and>
         list_all2 (\<lambda>row t. append_cells demo_lib (audit_row t) = Inr row) rows [entry_A, entry_C, entry_F]))"
proof -
  have l: "\<not> DRY_RUN beck_ctx"
    by (simp add: beck_ctx_def dry_ctx_def)
  have f: "filter (\<lambda>t. new_id t \<noteq> [] \<and>
             (case TEST_MODE_ARTIST beck_ctx of None \<Rightarrow> True
              | Some a \<Rightarrow> a = [] \<or> lower demo_lib (artist t) = lower demo_lib a))
             [entry_A, entry_C, entry_F] = [entry_C]"
    by (simp add: demo_defs)
  have n: "[entry_A, entry_C, entry_F] \<noteq> []"
    by simp
  obtain w' where r: "report_and_live_run demo_lib demo_sp beck_ctx [entry_A, entry_C, entry_F] demo_world = (w', 0)"
    by (simp add: demo_defs step_defs)
  from live_run_acts_on_the_found_replacements [OF l r, unfolded f] n r show ?thesis
    by (simp add: demo_defs audit_row_def)
qed

text \<open>
  Claim C6. For a record that the live run processes, the call that adds the substitute
  is the first call, and the call that removes the original is issued only once the add
  has returned without an exception; when the add raises, no removal is issued. The
  service goes, in this order, through the state that the add has left and, if the
  removal is issued, the state that the removal has left. Let \<open>contents\<close> read the
  identifiers that the collection holds in a state of the service: for a service whose
  adding calls take nothing away from the collection, an original that was in the
  collection before the record is processed is still in it in the state between the
  two calls.
\<close>

theorem add_is_issued_before_remove:
  fixes w :: "'s world" and contents :: "'s \<Rightarrow> string list"
  assumes playlist_keeps:
      "\<And>s p ids x. x \<in> set (contents s) \<Longrightarrow> x \<in> set (contents (snd (playlist_add_items sp s p ids)))"
    and liked_keeps:
      "\<And>s ids x. x \<in> set (contents s) \<Longrightarrow> x \<in> set (contents (snd (current_user_saved_tracks_add sp s ids)))"
    and held: "old_id pair \<in> set (contents (service w))"
    and run: "replace_track sp ctx i total_to_process pair w = (w', r)"
  shows "\<exists>between.
           between = snd (add_op sp ctx (service w) pair) \<and>
           old_id pair \<in> set (contents between) \<and>
           (case fst (add_op sp ctx (service w) pair) of
              Some e \<Rightarrow>
                calls w' = calls w @ [add_call ctx pair] \<and>
                states w' = states w @ [between] \<and>
                service w' = between \<and> r = Some e
            | None \<Rightarrow>
                calls w' = calls w @ [add_call ctx pair, remove_call ctx pair] \<and>
                states w' = states w @ [between, snd (remove_op sp ctx between pair)] \<and>
                service w' = snd (remove_op sp ctx between pair) \<and>
                r = fst (remove_op sp ctx between pair))"
proof -
  define between where "between = snd (add_op sp ctx (service w) pair)"
  have "old_id pair \<in> set (contents between)"
    unfolding between_def add_op_def using playlist_keeps liked_keeps held by simp
  with replace_track_effect [OF run] replace_track_states [OF run] show ?thesis
    unfolding between_def by (auto split: option.splits)
qed

theorem add_is_issued_before_remove_witness:
  "''C'' \<in> set (service demo_world) \<and> old_id entry_C = ''C'' \<and> new_id entry_C = ''D'' \<and>
   add_op demo_sp live_ctx (service demo_world) entry_C = (None, [''D'', ''A'', ''C'', ''F'']) \<and>
   (\<exists>w'. replace_track demo_sp live_ctx 2 2 entry_C demo_world = (w', None) \<and>
      calls w' = [Current_user_saved_tracks_add [''D''], Current_user_saved_tracks_delete [''C'']] \<and>
      states w' = [[''D'', ''A'', ''C'', ''F''], [''D'', ''A'', ''F'']] \<and>
      service w' = [''D'', ''A'', ''F''])"
proof -
  have p: "\<And>s p ids x. x \<in> set s \<Longrightarrow> x \<in> set (snd (playlist_add_items demo_sp s p ids))"
    by (simp add: demo_sp_def)
  have l: "\<And>s ids x. x \<in> set s \<Longrightarrow> x \<in> set (snd (current_user_saved_tracks_add demo_sp s ids))"
    by (simp add: demo_sp_def)
  have h: "old_id entry_C \<in> set (service demo_world)"
    by (simp add: entry_C_def demo_world_def)
  obtain w' r where t: "replace_track demo_sp live_ctx 2 2 entry_C demo_world = (w', r)"
    by (cases "replace_track demo_sp live_ctx 2 2 entry_C demo_world")
  have a: "add_op demo_sp live_ctx (service demo_world) entry_C = (None, [''D'', ''A'', ''C'', ''F''])"
    by (simp add: demo_defs add_op_def)
  from add_is_issued_before_remove [of "\<lambda>s. s", OF p l h t] t a show ?thesis
    by (simp add: demo_defs remove_op_def add_call_def remove_call_def)
qed

text \<open>
  Claim C7. When the add or the removal of a record raises, after any records before
  it however they went, the line with the \<open>old_id\<close> of the record and the text of the
  exception is printed, and the loop goes on with the records after it from the state
  that the failed calls left (nothing is undone, nothing is tried again, the count of
  the records done is not raised). The line is on the console at the end, and over the
  whole batch the adding calls issued are one for each record not passed over, in
  order.
\<close>

theorem failure_is_logged_and_the_batch_goes_on:
  fixes w :: "'s world"
  assumes before: "replacement_loop lib sp ctx i total_to_process xs n w = (n1, w1)"
    and mine: "\<not> skipped lib ctx pair"
    and fails: "replace_track sp ctx (i + length xs) total_to_process pair w1 = (w2, Some e)"
  shows "replacement_loop lib sp ctx i total_to_process (xs @ pair # ys) n w =
           replacement_loop lib sp ctx (Suc (i + length xs)) total_to_process ys n1
             (print (''An error occurred while replacing track '' @ old_id pair @ '': '' @ str_error e) w2) \<and>
         (''An error occurred while replacing track '' @ old_id pair @ '': '' @ str_error e)
           \<in> set (console (snd (replacement_loop lib sp ctx i total_to_process (xs @ pair # ys) n w))) \<and>
         filter adding (drop (length (calls w)) (calls (snd (replacement_loop lib sp ctx i total_to_process (xs @ pair # ys) n w))))
           = map (add_call ctx) (filter (\<lambda>t. \<not> skipped lib ctx t) (xs @ pair # ys))"
proof -
  define line where "line = ''An error occurred while replacing track '' @ old_id pair @ '': '' @ str_error e"
  have step: "replacement_loop lib sp ctx i total_to_process (xs @ pair # ys) n w =
                replacement_loop lib sp ctx (Suc (i + length xs)) total_to_process ys n1 (print line w2)"
    using before mine fails by (simp add: replacement_loop_append line_def)
  from replacement_loop_keeps [of lib sp ctx "Suc (i + length xs)" total_to_process ys n1 "print line w2"]
  obtain ls where "console (snd (replacement_loop lib sp ctx (Suc (i + length xs)) total_to_process ys n1 (print line w2)))
                   = console (print line w2) @ ls"
    by blast
  with step have logged: "line \<in> set (console (snd (replacement_loop lib sp ctx i total_to_process (xs @ pair # ys) n w)))"
    by (simp add: print_fields)
  from replacement_loop_calls [of lib sp ctx i total_to_process "xs @ pair # ys" n w]
  obtain css where css: "calls (snd (replacement_loop lib sp ctx i total_to_process (xs @ pair # ys) n w)) = calls w @ concat css"
    "list_all2 (\<lambda>cs pair. cs = [add_call ctx pair] \<or> cs = [add_call ctx pair, remove_call ctx pair])
           css (filter (\<lambda>t. \<not> skipped lib ctx t) (xs @ pair # ys))"
    by blast
  from adding_count [OF css(2)] css(1)
  have "filter adding (drop (length (calls w)) (calls (snd (replacement_loop lib sp ctx i total_to_process (xs @ pair # ys) n w))))
           = map (add_call ctx) (filter (\<lambda>t. \<not> skipped lib ctx t) (xs @ pair # ys))"
    by simp
  with step logged show ?thesis
    unfolding line_def by blast
qed

theorem failure_is_logged_and_the_batch_goes_on_witness:
  "replacement_loop demo_lib demo_sp live_ctx 1 2 [] 0 demo_world = (0, demo_world) \<and>
   \<not> skipped demo_lib live_ctx entry_A \<and>
   (\<exists>w2. replace_track demo_sp live_ctx 1 2 entry_A demo_world = (w2, Some (SpotifyException ''boom''))) \<and>
   ''An error occurred while replacing track A: boom''
      \<in> set (console (snd (replacement_loop demo_lib demo_sp live_ctx 1 2 [entry_A, entry_C] 0 demo_world))) \<and>
   filter adding (calls (snd (replacement_loop demo_lib demo_sp live_ctx 1 2 [entry_A, entry_C] 0 demo_world)))
      = [Current_user_saved_tracks_add [''B''], Current_user_saved_tracks_add [''D'']]"
proof -
  have b: "replacement_loop demo_lib demo_sp live_ctx 1 2 [] 0 demo_world = (0, demo_world)"
    by simp
  have m: "\<not> skipped demo_lib live_ctx entry_A"
    by (simp add: skipped_def demo_defs)
  obtain w2 where f: "replace_track demo_sp live_ctx (1 + length ([] :: log_entry list)) 2 entry_A demo_world
                      = (w2, Some (SpotifyException ''boom''))"
    by (simp add: demo_defs step_defs)
  from failure_is_logged_and_the_batch_goes_on [OF b m f, of "[entry_C]"] b m f show ?thesis
    by (simp add: demo_defs skipped_def add_call_def)
qed

section \<open>The pages of the source\<close>

lemma audit_page_raise:
  "page sp ctx (service w) offset = Inl e \<Longrightarrow>
     audit_page lib sp ctx offset log w = Raise e (w\<lparr>calls := calls w @ [fetch_call ctx offset]\<rparr>)"
  by (simp add: audit_page_def fetch_def reading_def)

lemma audit_page_break:
  "page sp ctx (service w) offset = Inr [] \<Longrightarrow>
     audit_page lib sp ctx offset log w = Break (w\<lparr>calls := calls w @ [fetch_call ctx offset]\<rparr>)"
  by (simp add: audit_page_def fetch_def reading_def)

lemma audit_page_goes_on:
  assumes "page sp ctx (service w) offset = Inr items" and "items \<noteq> []"
  shows "(\<exists>e w1. audit_page lib sp ctx offset log w = Raise e w1) \<or>
         (\<exists>log1 w1. audit_page lib sp ctx offset log w = Continue (offset + length items) log1 w1)"
  using assms unfolding audit_page_def fetch_def reading_def Let_def
  by (simp split: sum.splits prod.splits)

lemma audit_page_break_iff:
  "(\<exists>w1. audit_page lib sp ctx offset log w = Break w1) \<longleftrightarrow> page sp ctx (service w) offset = Inr []"
proof (cases "page sp ctx (service w) offset")
  case (Inl e)
  then show ?thesis by (simp add: audit_page_raise)
next
  case (Inr items)
  show ?thesis
  proof (cases "items = []")
    case True
    with Inr show ?thesis by (simp add: audit_page_break)
  next
    case False
    with audit_page_goes_on [OF Inr False, of lib log] Inr show ?thesis by auto
  qed
qed

lemma audit_page_continue:
  assumes "audit_page lib sp ctx offset log w = Continue offset' log' w1"
  shows "\<exists>items. page sp ctx (service w) offset = Inr items \<and> items \<noteq> [] \<and> offset' = offset + length items"
proof (cases "page sp ctx (service w) offset")
  case (Inl e)
  with assms show ?thesis by (simp add: audit_page_raise)
next
  case (Inr items)
  show ?thesis
  proof (cases "items = []")
    case True
    with Inr assms show ?thesis by (simp add: audit_page_break)
  next
    case False
    with audit_page_goes_on [OF Inr False, of lib log] Inr assms show ?thesis by auto
  qed
qed

lemma audit_loop_ends_at_empty_page:
  fixes w :: "'s world"
  assumes "audit_loop lib sp ctx offset log w = Some y"
  shows "\<forall>log'. snd y = Inr log' \<longrightarrow>
           (\<exists>offset'. offset \<le> offset' \<and> page sp ctx (service w) offset' = Inr [] \<and>
                       calls (fst y) \<noteq> [] \<and> last (calls (fst y)) = fetch_call ctx offset')"
proof (rule audit_loop.raw_induct [where P = "\<lambda>lib sp ctx offset log w y. \<forall>log'. snd y = Inr log' \<longrightarrow>
           (\<exists>offset'. offset \<le> offset' \<and> page sp ctx (service w) offset' = Inr [] \<and>
                       calls (fst y) \<noteq> [] \<and> last (calls (fst y)) = fetch_call ctx offset')", OF _ assms])
  fix loop :: "library \<Rightarrow> 's spotify \<Rightarrow> run_context \<Rightarrow> nat \<Rightarrow> log_entry list \<Rightarrow> 's world
                \<Rightarrow> ('s world \<times> (error + log_entry list)) option"
    and lib sp ctx offset log w y
  assume IH: "\<And>lib sp ctx offset log w y. loop lib sp ctx offset log w = Some y \<Longrightarrow>
                \<forall>log'. snd y = Inr log' \<longrightarrow>
                  (\<exists>offset'. offset \<le> offset' \<and> page sp ctx (service w) offset' = Inr [] \<and>
                              calls (fst y) \<noteq> [] \<and> last (calls (fst y)) = fetch_call ctx offset')"
  assume body: "(case audit_page lib sp ctx offset log w of
                   Break w1 \<Rightarrow> Some (w1, Inr log)
                 | Raise e w1 \<Rightarrow> Some (w1, Inl e)
                 | Continue offset' log' w1 \<Rightarrow> loop lib sp ctx offset' log' w1) = Some y"
  show "\<forall>log'. snd y = Inr log' \<longrightarrow>
          (\<exists>offset'. offset \<le> offset' \<and> page sp ctx (service w) offset' = Inr [] \<and>
                      calls (fst y) \<noteq> [] \<and> last (calls (fst y)) = fetch_call ctx offset')"
  proof (cases "audit_page lib sp ctx offset log w")
    case (Break w1)
    then have p: "page sp ctx (service w) offset = Inr []"
      using audit_page_break_iff by blast
    with Break have "w1 = w\<lparr>calls := calls w @ [fetch_call ctx offset]\<rparr>"
      by (simp add: audit_page_break)
    with Break body p show ?thesis
      by (intro allI impI exI [of _ offset]) auto
  next
    case (Raise e w1)
    with body show ?thesis by auto
  next
    case (Continue offset' log' w1)
    with body have "loop lib sp ctx offset' log' w1 = Some y" by simp
    from IH [OF this] have ih: "\<forall>log'. snd y = Inr log' \<longrightarrow>
                  (\<exists>offset''. offset' \<le> offset'' \<and> page sp ctx (service w1) offset'' = Inr [] \<and>
                              calls (fst y) \<noteq> [] \<and> last (calls (fst y)) = fetch_call ctx offset'')" .
    from audit_page_continue [OF Continue] have le: "offset \<le> offset'"
      by auto
    from reads_only_audit_page [of w lib sp ctx offset log] Continue have "service w1 = service w"
      by (simp add: reads_only_def)
    with ih le show ?thesis
      by (metis le_trans)
  qed
qed

lemma original_track_map_unusable:
  "\<forall>it\<in>set items. (case it of Some (Some t) \<Rightarrow> \<not> truthy (track_id t) | _ \<Rightarrow> True) \<Longrightarrow>
     original_track_map items m = m"
  by (induction items m rule: original_track_map.induct) auto

lemma original_track_map_not_empty: "m \<noteq> [] \<Longrightarrow> original_track_map items m \<noteq> []"
proof (induction items m rule: original_track_map.induct)
  case (2 t items m)
  have "AList.update k t m \<noteq> []" for k
    using "2.prems" by (cases m) auto
  with 2 show ?case by auto
qed auto

lemma original_track_map_empty_iff:
  "original_track_map items [] = [] \<longleftrightarrow>
     (\<forall>it\<in>set items. (case it of Some (Some t) \<Rightarrow> \<not> truthy (track_id t) | _ \<Rightarrow> True))"
proof
  show "original_track_map items [] = [] \<Longrightarrow>
          \<forall>it\<in>set items. (case it of Some (Some t) \<Rightarrow> \<not> truthy (track_id t) | _ \<Rightarrow> True)"
  proof (induction items)
    case Nil
    then show ?case by simp
  next
    case (Cons it items)
    show ?case
    proof (cases "case it of Some (Some t) \<Rightarrow> \<not> truthy (track_id t) | _ \<Rightarrow> True")
      case True
      then have "original_track_map (it # items) [] = original_track_map items []"
        by (auto split: option.splits)
      with Cons True show ?thesis by simp
    next
      case False
      then obtain t where t: "it = Some (Some t)" "truthy (track_id t)"
        by (auto split: option.splits)
      then have "original_track_map (it # items) [] = original_track_map items [(the (track_id t), t)]"
        by simp
      with Cons.prems original_track_map_not_empty [of "[(the (track_id t), t)]" items] show ?thesis
        by simp
    qed
  qed
next
  show "\<forall>it\<in>set items. (case it of Some (Some t) \<Rightarrow> \<not> truthy (track_id t) | _ \<Rightarrow> True) \<Longrightarrow>
          original_track_map items [] = []"
    by (rule original_track_map_unusable)
qed

text \<open>
  Claim C9. When the service answers the fetch at an offset with a page, the loop ends
  there, with the records it has, exactly when the page has no item; otherwise, unless
  an exception leaves the run, it goes on at the offset raised by the number of items
  of the page. A loop that ends without exception has fetched, last, a page without
  items. In particular a first page without items ends the loop at once with no record.
\<close>

theorem offset_advances_until_an_empty_page:
  fixes w :: "'s world"
  assumes answer: "page sp ctx (service w) offset = Inr items"
  shows "(if items = []
          then audit_loop lib sp ctx offset log w = Some (w\<lparr>calls := calls w @ [fetch_call ctx offset]\<rparr>, Inr log)
          else (\<exists>e w1. audit_page lib sp ctx offset log w = Raise e w1 \<and>
                        audit_loop lib sp ctx offset log w = Some (w1, Inl e)) \<or>
               (\<exists>log1 w1. audit_page lib sp ctx offset log w = Continue (offset + length items) log1 w1 \<and>
                           audit_loop lib sp ctx offset log w = audit_loop lib sp ctx (offset + length items) log1 w1)) \<and>
         ((\<exists>w1. audit_page lib sp ctx offset log w = Break w1) \<longleftrightarrow> items = []) \<and>
         (\<forall>w' log'. audit_loop lib sp ctx offset log w = Some (w', Inr log') \<longrightarrow>
            (\<exists>offset'. offset \<le> offset' \<and> page sp ctx (service w) offset' = Inr [] \<and>
                        last (calls w') = fetch_call ctx offset'))"
proof (intro conjI)
  show "if items = []
        then audit_loop lib sp ctx offset log w = Some (w\<lparr>calls := calls w @ [fetch_call ctx offset]\<rparr>, Inr log)
        else (\<exists>e w1. audit_page lib sp ctx offset log w = Raise e w1 \<and>
                      audit_loop lib sp ctx offset log w = Some (w1, Inl e)) \<or>
             (\<exists>log1 w1. audit_page lib sp ctx offset log w = Continue (offset + length items) log1 w1 \<and>
                         audit_loop lib sp ctx offset log w = audit_loop lib sp ctx (offset + length items) log1 w1)"
  proof (cases "items = []")
    case True
    with answer have "audit_page lib sp ctx offset log w = Break (w\<lparr>calls := calls w @ [fetch_call ctx offset]\<rparr>)"
      by (simp add: audit_page_break)
    with True show ?thesis
      by (subst audit_loop.simps) simp
  next
    case False
    from audit_page_goes_on [OF answer False, of lib log] show ?thesis
    proof (elim disjE exE)
      fix e w1
      assume "audit_page lib sp ctx offset log w = Raise e w1"
      moreover from this have "audit_loop lib sp ctx offset log w = Some (w1, Inl e)"
        by (subst audit_loop.simps) simp
      ultimately show ?thesis
        using False by auto
    next
      fix log1 w1
      assume "audit_page lib sp ctx offset log w = Continue (offset + length items) log1 w1"
      moreover from this have "audit_loop lib sp ctx offset log w = audit_loop lib sp ctx (offset + length items) log1 w1"
        by (subst audit_loop.simps) simp
      ultimately show ?thesis
        using False by auto
    qed
  qed
next
  show "(\<exists>w1. audit_page lib sp ctx offset log w = Break w1) \<longleftrightarrow> items = []"
    using audit_page_break_iff [of lib sp ctx offset log w] answer by simp
next
  show "\<forall>w' log'. audit_loop lib sp ctx offset log w = Some (w', Inr log') \<longrightarrow>
          (\<exists>offset'. offset \<le> offset' \<and> page sp ctx (service w) offset' = Inr [] \<and>
                      last (calls w') = fetch_call ctx offset')"
  proof (intro allI impI)
    fix w' log'
    assume "audit_loop lib sp ctx offset log w = Some (w', Inr log')"
    from audit_loop_ends_at_empty_page [OF this] show
      "\<exists>offset'. offset \<le> offset' \<and> page sp ctx (service w) offset' = Inr [] \<and>
                  last (calls w') = fetch_call ctx offset'"
      by auto
  qed
qed

theorem offset_advances_until_an_empty_page_witness:
  "page empty_sp dry_ctx (service demo_world) 0 = Inr [] \<and>
   audit_loop demo_lib empty_sp dry_ctx 0 [] demo_world
     = Some (demo_world\<lparr>calls := [Current_user_saved_tracks 50 0]\<rparr>, Inr []) \<and>
   page demo_sp dry_ctx (service demo_world) 0 = Inr liked_page \<and> liked_page \<noteq> [] \<and>
   (\<exists>log1 w1. audit_page demo_lib demo_sp dry_ctx 0 [] demo_world = Continue (0 + length liked_page) log1 w1 \<and>
      audit_loop demo_lib demo_sp dry_ctx 0 [] demo_world = audit_loop demo_lib demo_sp dry_ctx (0 + length liked_page) log1 w1) \<and>
   (\<exists>w'. audit_loop demo_lib demo_sp dry_ctx 0 [] demo_world = Some (w', Inr [entry_A, entry_C, entry_F]) \<and>
      (\<exists>offset'. page demo_sp dry_ctx (service demo_world) offset' = Inr [] \<and>
                  last (calls w') = fetch_call dry_ctx offset'))"
proof -
  have a0: "page empty_sp dry_ctx (service demo_world) 0 = Inr []"
    by (simp add: page_def empty_sp_def demo_defs)
  have a1: "page demo_sp dry_ctx (service demo_world) 0 = Inr liked_page"
    by (simp add: page_def demo_sp_def dry_ctx_def)
  have n: "liked_page \<noteq> []"
    by (simp add: liked_page_def)
  have c: "\<forall>e w1. audit_page demo_lib demo_sp dry_ctx 0 [] demo_world \<noteq> Raise e w1"
    by (simp add: demo_defs step_defs)
  obtain w' where l: "audit_loop demo_lib demo_sp dry_ctx 0 [] demo_world = Some (w', Inr [entry_A, entry_C, entry_F])"
    by (simp add: demo_defs step_defs audit_loop.simps)
  from offset_advances_until_an_empty_page [OF a0, of demo_lib "[]"]
    offset_advances_until_an_empty_page [OF a1, of demo_lib "[]"] a0 a1 n c l
  show ?thesis
    by (auto simp: fetch_call_def dry_ctx_def demo_world_def)
qed

text \<open>
  Claim C10. A page that has items, none of them with a usable track (the item is
  \<^verbatim>\<open>None\<close>, or its track is, or the track has no identifier), gives an empty map of
  identifiers; the pass then only raises the offset by the number of items of the page:
  no record is made, no further call is issued for the page, and the loop goes on with
  the next page instead of ending.
\<close>

theorem page_without_usable_track_is_passed_over:
  fixes w :: "'s world"
  assumes answer: "page sp ctx (service w) offset = Inr items"
    and some: "items \<noteq> []"
    and unusable: "\<forall>it\<in>set items. (case it of Some (Some t) \<Rightarrow> \<not> truthy (track_id t) | _ \<Rightarrow> True)"
  shows "map fst (original_track_map items []) = [] \<and>
         audit_page lib sp ctx offset log w
           = Continue (offset + length items) log (w\<lparr>calls := calls w @ [fetch_call ctx offset]\<rparr>) \<and>
         audit_loop lib sp ctx offset log w
           = audit_loop lib sp ctx (offset + length items) log (w\<lparr>calls := calls w @ [fetch_call ctx offset]\<rparr>)"
proof -
  from unusable have m: "original_track_map items [] = []"
    by (rule original_track_map_unusable)
  with answer some have p: "audit_page lib sp ctx offset log w
           = Continue (offset + length items) log (w\<lparr>calls := calls w @ [fetch_call ctx offset]\<rparr>)"
    by (simp add: audit_page_def fetch_def reading_def)
  then have "audit_loop lib sp ctx offset log w
           = audit_loop lib sp ctx (offset + length items) log (w\<lparr>calls := calls w @ [fetch_call ctx offset]\<rparr>)"
    by (subst audit_loop.simps) simp
  with m p show ?thesis
    by simp
qed

theorem page_without_usable_track_is_passed_over_witness:
  "page demo_sp playlist_ctx (service demo_world) 0 = Inr unusable_page \<and>
   unusable_page = [None, Some None, Some (Some song_local)] \<and> track_id song_local = None \<and>
   audit_page demo_lib demo_sp playlist_ctx 0 [] demo_world
     = Continue 3 [] (demo_world\<lparr>calls := [Playlist_items ''P'' 100 0 ''BE'']\<rparr>) \<and>
   audit_loop demo_lib demo_sp playlist_ctx 0 [] demo_world
     = Some (demo_world\<lparr>calls := [Playlist_items ''P'' 100 0 ''BE'', Playlist_items ''P'' 100 3 ''BE'']\<rparr>, Inr [])"
proof -
  have a: "page demo_sp playlist_ctx (service demo_world) 0 = Inr unusable_page"
    by (simp add: page_def demo_sp_def playlist_ctx_def dry_ctx_def)
  have s: "unusable_page \<noteq> []"
    by (simp add: unusable_page_def)
  have u: "\<forall>it\<in>set unusable_page. (case it of Some (Some t) \<Rightarrow> \<not> truthy (track_id t) | _ \<Rightarrow> True)"
    by (simp add: unusable_page_def song_local_def)
  have e: "audit_loop demo_lib demo_sp playlist_ctx 3 [] (demo_world\<lparr>calls := [Playlist_items ''P'' 100 0 ''BE'']\<rparr>)
           = Some (demo_world\<lparr>calls := [Playlist_items ''P'' 100 0 ''BE'', Playlist_items ''P'' 100 3 ''BE'']\<rparr>, Inr [])"
    by (simp add: demo_defs step_defs audit_loop.simps)
  have len: "0 + length unusable_page = 3"
    by (simp add: unusable_page_def)
  from page_without_usable_track_is_passed_over [OF a s u, of demo_lib "[]", unfolded len] a e show ?thesis
    by (simp add: fetch_call_def playlist_ctx_def dry_ctx_def demo_world_def unusable_page_def song_local_def)
qed

end
